theory Spec2Isabelle
  imports Complex_Main
begin

section \<open>Common data\<close>

text \<open>
  The exceptions the modelled functions can raise.  A function that can raise returns
  \<open>py_error + 'a\<close>, with \<open>Inl\<close> for the exception.
\<close>

datatype py_error = IndexError | ValueError

text \<open>
  A two-dimensional numpy array is the list of its rows.  \<open>shape0\<close> and \<open>shape1\<close> are
  \<open>img.shape[0]\<close> and \<open>img.shape[1]\<close>; a numpy array is rectangular (\<open>rect\<close>).
\<close>

definition shape0 :: "'a list list \<Rightarrow> nat" where
  "shape0 img = length img"

definition shape1 :: "'a list list \<Rightarrow> nat" where
  "shape1 img = (case img of [] \<Rightarrow> 0 | row # _ \<Rightarrow> length row)"

definition rect :: "'a list list \<Rightarrow> bool" where
  "rect img = (\<forall>row \<in> set img. length row = shape1 img)"

text \<open>\<open>np.zeros([m, n])\<close>.\<close>

definition np_zeros :: "nat \<Rightarrow> nat \<Rightarrow> real list list" where
  "np_zeros m n = replicate m (replicate n 0)"

section \<open>algorithms.py: get_distance_list\<close>

text \<open>
  An entry \<open>[i - r_max, j - r_max, distance_map[i,j]]\<close> of the distance list.  The
  distance is a float in the source; it is the real square root here.
\<close>

type_synonym offset = "int \<times> int \<times> real"

definition distance_key :: "offset \<Rightarrow> real" where
  "distance_key x = snd (snd x)"

text \<open>
  Lines 95-98: the \<open>L \<times> L\<close> table of distances from the centre \<open>(r_max, r_max)\<close>.
\<close>

definition distance_map :: "int \<Rightarrow> nat \<Rightarrow> real list list" where
  "distance_map r_max L =
     map (\<lambda>i. map (\<lambda>j. sqrt (real_of_int ((int i - r_max)\<^sup>2 + (int j - r_max)\<^sup>2))) [0..<L])
       [0..<L]"

text \<open>Lines 100-104: the row-major scan that keeps the offsets inside the disk.\<close>

definition distance_entries :: "int \<Rightarrow> nat \<Rightarrow> real list list \<Rightarrow> offset list" where
  "distance_entries r_max L dm =
     concat (map (\<lambda>i. concat (map (\<lambda>j.
        if dm ! i ! j \<le> real_of_int r_max then [(int i - r_max, int j - r_max, dm ! i ! j)]
        else []) [0..<L])) [0..<L])"

text \<open>
  \<open>np.zeros([L, L])\<close> raises ValueError for a negative \<open>L = 2 * r_max + 1\<close>.  Python's
  \<open>list.sort\<close> is stable, as \<open>sort_key\<close> is.
\<close>

definition get_distance_list :: "int \<Rightarrow> py_error + offset list" where
  "get_distance_list r_max =
     (let L = 2 * r_max + 1 in
      if L < 0 then Inl ValueError
      else Inr (sort_key distance_key
                  (distance_entries r_max (nat L) (distance_map r_max (nat L)))))"

section \<open>algorithms.py: find_local_maxima\<close>

text \<open>
  \<open>np.max\<close> of a flattened array; numpy raises ValueError on an empty one.
\<close>

definition np_max :: "'a::linorder list \<Rightarrow> py_error + 'a" where
  "np_max xs = (case xs of [] \<Rightarrow> Inl ValueError | x # rest \<Rightarrow> Inr (fold max rest x))"

text \<open>
  The slice \<open>xs[a:b]\<close> for \<open>0 \<le> a\<close>: it is clipped at the end of the list and never
  raises.
\<close>

definition slice :: "nat \<Rightarrow> nat \<Rightarrow> 'a list \<Rightarrow> 'a list" where
  "slice a b xs = take (b - a) (drop a xs)"

text \<open>
  \<open>img[i-1:i+2, j-1:j+2]\<close>, flattened; the callers have \<open>1 \<le> i\<close> and \<open>1 \<le> j\<close>, so
  no index is negative.
\<close>

definition window :: "'a list list \<Rightarrow> nat \<Rightarrow> nat \<Rightarrow> 'a list" where
  "window img i j = concat (map (slice (j - 1) (j + 2)) (slice (i - 1) (i + 2) img))"

text \<open>
  Line 113-115, the loop over \<open>j\<close> for one row \<open>i\<close>.  Python's \<open>and\<close> evaluates
  \<open>np.max\<close> only when \<open>img[i,j] != 0\<close>.
\<close>

fun maxima_cols ::
  "'a::{linorder,zero} list list \<Rightarrow> nat \<Rightarrow> nat list \<Rightarrow> (nat \<times> nat) list \<Rightarrow>
     py_error + (nat \<times> nat) list" where
  "maxima_cols img i [] local_maxima = Inr local_maxima"
| "maxima_cols img i (j # js) local_maxima =
     (if img ! i ! j \<noteq> 0 then
        (case np_max (window img i j) of
           Inl e \<Rightarrow> Inl e
         | Inr m \<Rightarrow>
             maxima_cols img i js
               (if m = img ! i ! j then local_maxima @ [(i, j)] else local_maxima))
      else maxima_cols img i js local_maxima)"

text \<open>Line 112, the loop over \<open>i\<close>.\<close>

fun maxima_rows ::
  "'a::{linorder,zero} list list \<Rightarrow> nat list \<Rightarrow> (nat \<times> nat) list \<Rightarrow>
     py_error + (nat \<times> nat) list" where
  "maxima_rows img [] local_maxima = Inr local_maxima"
| "maxima_rows img (i # is) local_maxima =
     (case maxima_cols img i [1..<shape1 img - 1] local_maxima of
        Inl e \<Rightarrow> Inl e
      | Inr local_maxima' \<Rightarrow> maxima_rows img is local_maxima')"

text \<open>
  \<open>range(1, img.shape[0]-1)\<close> is empty when the bound is below 1, as \<open>[1..<n - 1]\<close> is.
\<close>

definition find_local_maxima ::
  "'a::{linorder,zero} list list \<Rightarrow> py_error + (nat \<times> nat) list" where
  "find_local_maxima img = maxima_rows img [1..<shape0 img - 1] []"

section \<open>algorithms.py: ultimate_erode\<close>

text \<open>The assignment \<open>a[i,j] = v\<close>.\<close>

definition set2 :: "'a list list \<Rightarrow> nat \<Rightarrow> nat \<Rightarrow> 'a \<Rightarrow> 'a list list" where
  "set2 a i j v = a[i := (a ! i)[j := v]]"

text \<open>
  Lines 126-135, the loop \<open>for pixel in distance_list\<close> at the pixel \<open>(i, j)\<close>: the first
  offset that leaves the image, or lands on a zero of the mask, writes its distance to
  \<open>img_dist[i,j]\<close> and ends the loop.  The index \<open>i + pixel[0]\<close> is read only after the
  bounds test, so it is never negative.
\<close>

fun walk_distance_list ::
  "'a::zero list list \<Rightarrow> nat \<Rightarrow> nat \<Rightarrow> offset list \<Rightarrow> real list list \<Rightarrow> real list list" where
  "walk_distance_list img i j [] img_dist = img_dist"
| "walk_distance_list img i j (pixel # rest) img_dist =
     (if int i + fst pixel < 0 \<or> int i + fst pixel \<ge> int (shape0 img)
         \<or> int j + fst (snd pixel) < 0 \<or> int j + fst (snd pixel) \<ge> int (shape1 img)
      then set2 img_dist i j (snd (snd pixel))
      else if img ! nat (int i + fst pixel) ! nat (int j + fst (snd pixel)) = 0
      then set2 img_dist i j (snd (snd pixel))
      else walk_distance_list img i j rest img_dist)"

text \<open>
  Lines 124-138, the loop over \<open>j\<close> for one row: \<open>None\<close> is the early \<open>return []\<close>.
\<close>

fun erode_cols ::
  "'a::zero list list \<Rightarrow> offset list \<Rightarrow> nat \<Rightarrow> nat list \<Rightarrow> real list list \<Rightarrow>
     real list list option" where
  "erode_cols img distance_list i [] img_dist = Some img_dist"
| "erode_cols img distance_list i (j # js) img_dist =
     (if img ! i ! j \<noteq> 0 then
        (let img_dist' = walk_distance_list img i j distance_list img_dist in
         if img_dist' ! i ! j = 0 then None
         else erode_cols img distance_list i js img_dist')
      else erode_cols img distance_list i js img_dist)"

text \<open>Line 123, the loop over \<open>i\<close>.\<close>

fun erode_rows ::
  "'a::zero list list \<Rightarrow> offset list \<Rightarrow> nat list \<Rightarrow> real list list \<Rightarrow>
     real list list option" where
  "erode_rows img distance_list [] img_dist = Some img_dist"
| "erode_rows img distance_list (i # is) img_dist =
     (case erode_cols img distance_list i [0..<shape1 img] img_dist of
        None \<Rightarrow> None
      | Some img_dist' \<Rightarrow> erode_rows img distance_list is img_dist')"

text \<open>
  The function takes the mask and a second argument \<open>orig\<close>, of any type; the radius
  is the literal 16.
\<close>

definition ultimate_erode ::
  "'a::zero list list \<Rightarrow> 'b \<Rightarrow> py_error + (nat \<times> nat) list" where
  "ultimate_erode img orig =
     (case get_distance_list 16 of
        Inl e \<Rightarrow> Inl e
      | Inr distance_list \<Rightarrow>
          (case erode_rows img distance_list [0..<shape0 img]
                  (np_zeros (shape0 img) (shape1 img)) of
             None \<Rightarrow> Inr []
           | Some img_dist \<Rightarrow> find_local_maxima img_dist))"

text \<open>
  The value \<open>img_dist[i,j]\<close> holds after the loop over the distance list at \<open>(i, j)\<close>;
  before that loop it is the zero \<open>np.zeros\<close> put there.
\<close>

definition received_distance ::
  "'a::zero list list \<Rightarrow> offset list \<Rightarrow> nat \<Rightarrow> nat \<Rightarrow> real" where
  "received_distance img distance_list i j =
     walk_distance_list img i j distance_list (np_zeros (shape0 img) (shape1 img)) ! i ! j"

section \<open>The detector with a radius parameter\<close>

text \<open>
  The detector as the specification words it, with the search radius a parameter: an
  offset finds the background when it lands outside the mask or on a zero of the mask;
  the distance to the background of a pixel is the distance of the first such offset
  of the distance list, and 0 when there is none; the run is abandoned with the empty
  result when a non-zero pixel has distance 0; the candidates are the local maxima of
  the distance field.
\<close>

definition lands_on_background :: "'a::zero list list \<Rightarrow> nat \<Rightarrow> nat \<Rightarrow> offset \<Rightarrow> bool" where
  "lands_on_background img i j off =
     (let a = int i + fst off; b = int j + fst (snd off) in
      a < 0 \<or> int (shape0 img) \<le> a \<or> b < 0 \<or> int (shape1 img) \<le> b
        \<or> img ! nat a ! nat b = 0)"

definition distance_to_background ::
  "'a::zero list list \<Rightarrow> offset list \<Rightarrow> nat \<Rightarrow> nat \<Rightarrow> real" where
  "distance_to_background img dl i j =
     (case List.find (lands_on_background img i j) dl of
        None \<Rightarrow> 0
      | Some off \<Rightarrow> distance_key off)"

definition distance_field :: "'a::zero list list \<Rightarrow> offset list \<Rightarrow> real list list" where
  "distance_field img dl =
     map (\<lambda>i. map (\<lambda>j. if img ! i ! j \<noteq> 0 then distance_to_background img dl i j else 0)
            [0..<shape1 img]) [0..<shape0 img]"

definition ultimate_erode_radius ::
  "'a::zero list list \<Rightarrow> int \<Rightarrow> py_error + (nat \<times> nat) list" where
  "ultimate_erode_radius img radius =
     (case get_distance_list radius of
        Inl e \<Rightarrow> Inl e
      | Inr dl \<Rightarrow>
          if list_ex (\<lambda>i. list_ex (\<lambda>j. img ! i ! j \<noteq> 0 \<and> distance_to_background img dl i j = 0)
                            [0..<shape1 img]) [0..<shape0 img]
          then Inr []
          else find_local_maxima (distance_field img dl))"

section \<open>The local maxima as the specification words them\<close>

text \<open>
  A pixel qualifies when its value is non-zero and greater than or equal to every value
  in its 3 by 3 neighbourhood, itself included.  The scan order is row-major: by
  ascending row, then by ascending column.
\<close>

definition qualifies :: "'a::{linorder,zero} list list \<Rightarrow> nat \<Rightarrow> nat \<Rightarrow> bool" where
  "qualifies img i j =
     (img ! i ! j \<noteq> 0 \<and> (\<forall>a \<in> {i - 1..i + 1}. \<forall>b \<in> {j - 1..j + 1}. img ! a ! b \<le> img ! i ! j))"

definition row_major :: "nat \<times> nat \<Rightarrow> nat \<times> nat \<Rightarrow> bool" where
  "row_major p q = (fst p < fst q \<or> (fst p = fst q \<and> snd p < snd q))"

text \<open>A non-zero pixel for which no background is found within the radius.\<close>

definition bad_pixel :: "'a::zero list list \<Rightarrow> offset list \<Rightarrow> nat \<Rightarrow> nat \<Rightarrow> bool" where
  "bad_pixel img dl i j = (img ! i ! j \<noteq> 0 \<and> distance_to_background img dl i j = 0)"

section \<open>Floating-point values\<close>

text \<open>
  A float is a real number or one of the IEEE special values.  Rounding, overflow and
  the sign of zero are not modelled; division by zero and the propagation of infinities
  and NaN are, since they decide where the loops of \<open>fwhm\<close> stop.
\<close>

datatype npfloat = Fin real | PInf | NInf | NaN

fun np_neg :: "npfloat \<Rightarrow> npfloat" where
  "np_neg (Fin a) = Fin (- a)"
| "np_neg PInf = NInf"
| "np_neg NInf = PInf"
| "np_neg NaN = NaN"

fun np_add :: "npfloat \<Rightarrow> npfloat \<Rightarrow> npfloat" where
  "np_add NaN b = NaN"
| "np_add a NaN = NaN"
| "np_add (Fin a) (Fin b) = Fin (a + b)"
| "np_add (Fin a) b = b"
| "np_add a (Fin b) = a"
| "np_add PInf PInf = PInf"
| "np_add NInf NInf = NInf"
| "np_add PInf NInf = NaN"
| "np_add NInf PInf = NaN"

definition np_sub :: "npfloat \<Rightarrow> npfloat \<Rightarrow> npfloat" where
  "np_sub a b = np_add a (np_neg b)"

fun np_mul :: "npfloat \<Rightarrow> npfloat \<Rightarrow> npfloat" where
  "np_mul NaN b = NaN"
| "np_mul a NaN = NaN"
| "np_mul (Fin a) (Fin b) = Fin (a * b)"
| "np_mul (Fin a) b = (if a = 0 then NaN else if 0 < a then b else np_neg b)"
| "np_mul a (Fin b) = (if b = 0 then NaN else if 0 < b then a else np_neg a)"
| "np_mul PInf b = b"
| "np_mul NInf b = np_neg b"

fun np_div :: "npfloat \<Rightarrow> npfloat \<Rightarrow> npfloat" where
  "np_div NaN b = NaN"
| "np_div a NaN = NaN"
| "np_div (Fin a) (Fin b) =
     (if b = 0 then (if a = 0 then NaN else if 0 < a then PInf else NInf) else Fin (a / b))"
| "np_div (Fin a) b = Fin 0"
| "np_div a (Fin b) = (if 0 \<le> b then a else np_neg a)"
| "np_div a b = NaN"

text \<open>A comparison with NaN is false; NaN is not equal to itself.\<close>

fun np_less :: "npfloat \<Rightarrow> npfloat \<Rightarrow> bool" where
  "np_less NaN b = False"
| "np_less a NaN = False"
| "np_less (Fin a) (Fin b) = (a < b)"
| "np_less NInf NInf = False"
| "np_less NInf b = True"
| "np_less PInf b = False"
| "np_less (Fin a) PInf = True"
| "np_less (Fin a) NInf = False"

definition np_equal :: "npfloat \<Rightarrow> npfloat \<Rightarrow> bool" where
  "np_equal a b = (a \<noteq> NaN \<and> b \<noteq> NaN \<and> a = b)"

fun np_sign :: "npfloat \<Rightarrow> npfloat" where
  "np_sign (Fin a) = Fin (sgn a)"
| "np_sign PInf = Fin 1"
| "np_sign NInf = Fin (- 1)"
| "np_sign NaN = NaN"

fun np_sqrt :: "npfloat \<Rightarrow> npfloat" where
  "np_sqrt (Fin a) = (if a < 0 then NaN else Fin (sqrt a))"
| "np_sqrt PInf = PInf"
| "np_sqrt NInf = NaN"
| "np_sqrt NaN = NaN"

text \<open>
  \<open>np.argmax\<close> and \<open>np.argmin\<close>: the first index of the extremum, and the first index
  of a NaN when there is one.  The arguments are the rest of the array, the index of its
  head, and the best index and value so far.
\<close>

fun argmax_from :: "npfloat list \<Rightarrow> nat \<Rightarrow> nat \<Rightarrow> npfloat \<Rightarrow> nat" where
  "argmax_from [] k best_i best = best_i"
| "argmax_from (x # xs) k best_i best =
     (if best = NaN then best_i
      else if x = NaN \<or> np_less best x then argmax_from xs (Suc k) k x
      else argmax_from xs (Suc k) best_i best)"

fun argmin_from :: "npfloat list \<Rightarrow> nat \<Rightarrow> nat \<Rightarrow> npfloat \<Rightarrow> nat" where
  "argmin_from [] k best_i best = best_i"
| "argmin_from (x # xs) k best_i best =
     (if best = NaN then best_i
      else if x = NaN \<or> np_less x best then argmin_from xs (Suc k) k x
      else argmin_from xs (Suc k) best_i best)"

definition np_argmax :: "npfloat list \<Rightarrow> py_error + nat" where
  "np_argmax xs = (case xs of [] \<Rightarrow> Inl ValueError | x # rest \<Rightarrow> Inr (argmax_from rest 1 0 x))"

definition np_argmin :: "npfloat list \<Rightarrow> py_error + nat" where
  "np_argmin xs = (case xs of [] \<Rightarrow> Inl ValueError | x # rest \<Rightarrow> Inr (argmin_from rest 1 0 x))"

section \<open>algorithms.py: fwhm\<close>

text \<open>
  Line 55: \<open>x = np.linspace(0, 255, 256).astype(int)\<close>, the array \<open>0, 1, ..., 255\<close>;
  reading it at 256 or beyond raises IndexError.
\<close>

definition x_at :: "nat \<Rightarrow> py_error + int" where
  "x_at k = (if k < 256 then Inr (int k) else Inl IndexError)"

text \<open>
  The test of both loops: \<open>np.sign(data[i]-lev50) == np.sign(data[i-1]-lev50)\<close>.
\<close>

definition same_sign :: "npfloat list \<Rightarrow> nat \<Rightarrow> bool" where
  "same_sign data i =
     np_equal (np_sign (np_sub (data ! i) (Fin (1/2))))
              (np_sign (np_sub (data ! (i - 1)) (Fin (1/2))))"

text \<open>
  Lines 70-72.  The loop has no bound of its own: reading \<open>data[i]\<close> at the size of the
  array raises IndexError.
\<close>

function lead_walk :: "npfloat list \<Rightarrow> nat \<Rightarrow> py_error + nat" where
  "lead_walk data i =
     (if length data \<le> i then Inl IndexError
      else if same_sign data i then lead_walk data (Suc i)
      else Inr i)"
  by pat_completeness auto
termination
  by (relation "measure (\<lambda>(data, i). length data - i)") auto

declare lead_walk.simps [simp del]

text \<open>
  Lines 77-79.  The sign test is evaluated first, so \<open>data[i]\<close> is read before the bound
  \<open>i <= N-1\<close> is looked at.
\<close>

function trail_walk :: "npfloat list \<Rightarrow> int \<Rightarrow> nat \<Rightarrow> py_error + nat" where
  "trail_walk data N i =
     (if length data \<le> i then Inl IndexError
      else if same_sign data i \<and> int i \<le> N - 1 then trail_walk data N (Suc i)
      else Inr i)"
  by pat_completeness auto
termination
  by (relation "measure (\<lambda>(data, N, i). length data - i)") auto

declare trail_walk.simps [simp del]

text \<open>
  Lines 74-75 and 83-84: the interpolated position of the crossing between the samples
  \<open>i - 1\<close> and \<open>i\<close>.
\<close>

definition crossing :: "npfloat list \<Rightarrow> nat \<Rightarrow> py_error + npfloat" where
  "crossing data i =
     (let interp = np_div (np_sub (Fin (1/2)) (data ! (i - 1)))
                          (np_sub (data ! i) (data ! (i - 1)))
      in case x_at (i - 1) of
           Inl e \<Rightarrow> Inl e
         | Inr xa \<Rightarrow>
             (case x_at i of
                Inl e \<Rightarrow> Inl e
              | Inr xb \<Rightarrow>
                  Inr (np_add (Fin (real_of_int xa))
                              (np_mul interp (Fin (real_of_int (xb - xa)))))))"

text \<open>Line 57: \<open>data / np.max(data)\<close>.\<close>

definition normalise :: "real list \<Rightarrow> real \<Rightarrow> npfloat list" where
  "normalise data m = map (\<lambda>v. np_div (Fin v) (Fin m)) data"

text \<open>Lines 61-66.\<close>

definition centre_of :: "npfloat list \<Rightarrow> py_error + nat" where
  "centre_of data = (if np_less (data ! 0) (Fin (1/2)) then np_argmax data else np_argmin data)"

text \<open>
  Lines 55-75, up to the leading edge: the normalised profile, \<open>N\<close>, the index of the
  peak, \<open>extremum_val\<close> and \<open>lead_t\<close>.  The profile is an array of finite samples.
\<close>

definition fwhm_leading ::
  "real list \<Rightarrow> py_error + (npfloat list \<times> int \<times> nat \<times> int \<times> npfloat)" where
  "fwhm_leading data0 =
     (case np_max data0 of
        Inl e \<Rightarrow> Inl e
      | Inr m \<Rightarrow>
          (let data = normalise data0 m;
               N = int (length data) - 1
           in case centre_of data of
                Inl e \<Rightarrow> Inl e
              | Inr centre_index \<Rightarrow>
             (case x_at centre_index of
                Inl e \<Rightarrow> Inl e
              | Inr extremum_val \<Rightarrow>
             (case lead_walk data 1 of
                Inl e \<Rightarrow> Inl e
              | Inr i \<Rightarrow>
             (case crossing data i of
                Inl e \<Rightarrow> Inl e
              | Inr lead_t \<Rightarrow> Inr (data, N, centre_index, extremum_val, lead_t))))))"

text \<open>
  Lines 77-91, the trailing edge.  The result is \<open>(x_width, extremum_val)\<close>; the width
  of the branch \<open>i == N\<close> is the integer 0.
\<close>

definition fwhm :: "real list \<Rightarrow> py_error + (npfloat \<times> int)" where
  "fwhm data0 =
     (case fwhm_leading data0 of
        Inl e \<Rightarrow> Inl e
      | Inr (data, N, centre_index, extremum_val, lead_t) \<Rightarrow>
          (case trail_walk data N (centre_index + 1) of
             Inl e \<Rightarrow> Inl e
           | Inr i \<Rightarrow>
               if int i \<noteq> N then
                 (case crossing data i of
                    Inl e \<Rightarrow> Inl e
                  | Inr trail_t \<Rightarrow> Inr (np_sub trail_t lead_t, extremum_val))
               else Inr (Fin 0, extremum_val)))"

section \<open>simulation.py: parameters, spots and the random source\<close>

text \<open>
  The fields of \<open>params\<close> the two simulators read while they build the spot records.
  The fields read only while the images are rendered (\<open>PSFwidth\<close>, \<open>BGmean\<close>, \<open>BGstd\<close>)
  are left out, with the rendering.
\<close>

record sim_params =
  num_spots :: nat
  num_frames :: nat
  frame_size :: "int \<times> int"
  diffusionCoeff :: real
  frameTime :: real
  pixelSize :: real
  bleach_time :: real
  Isingle :: real
  num_spot_molecules :: "int option"
  max_spot_molecules :: int
  p_bleach_per_frame :: real

record spots =
  frame :: int
  positions :: "(npfloat \<times> npfloat) list"
  traj_num :: "int list"
  spot_intensity :: "npfloat list"

text \<open>
  Modelled from the spec: the class \<open>Spots\<close> of the module \<open>spots\<close> is not among the
  sources.  A record of \<open>n\<close> spots has \<open>position\<close> and \<open>trajectory_id\<close> arrays of
  length \<open>n\<close>, one intensity for each spot, and the trajectory ids \<open>0..n-1\<close>; the
  trajectory ids are a sequence that \<open>[:]\<close> copies.
\<close>

definition Spots :: "nat \<Rightarrow> spots" where
  "Spots n = \<lparr> frame = 0, positions = replicate n (Fin 0, Fin 0),
               traj_num = map int [0..<n], spot_intensity = replicate n (Fin 0) \<rparr>"

text \<open>
  The state of \<open>numpy.random\<close>: the uniform variates and the standard normal variates it
  is going to produce, and how many of each have been consumed.  A uniform variate lies
  in \<open>[0, 1)\<close>.
\<close>

record rng =
  uniform :: "nat \<Rightarrow> real"
  upos :: nat
  gauss :: "nat \<Rightarrow> real"
  gpos :: nat

definition valid_rng :: "rng \<Rightarrow> bool" where
  "valid_rng g = (\<forall>k. 0 \<le> uniform g k \<and> uniform g k < 1)"

text \<open>\<open>random.rand()\<close> and \<open>random.rand(1)\<close>: one uniform variate.\<close>

definition random_rand1 :: "rng \<Rightarrow> real \<times> rng" where
  "random_rand1 g = (uniform g (upos g), g\<lparr>upos := Suc (upos g)\<rparr>)"

text \<open>\<open>random.rand(n)\<close>.\<close>

definition random_rand :: "nat \<Rightarrow> rng \<Rightarrow> real list \<times> rng" where
  "random_rand n g = (map (\<lambda>k. uniform g (upos g + k)) [0..<n], g\<lparr>upos := upos g + n\<rparr>)"

text \<open>
  \<open>random.normal(loc, scale, (n, 2))\<close> with an array \<open>loc\<close> of \<open>n\<close> positions: numpy
  raises ValueError for a negative scale; each coordinate is \<open>loc + scale * z\<close> for a
  standard normal variate \<open>z\<close>.  The sign of zero is not modelled: numpy also rejects
  the scale \<open>-0.0\<close>, which is accepted here as the scale 0.
\<close>

definition random_normal ::
  "(npfloat \<times> npfloat) list \<Rightarrow> npfloat \<Rightarrow> rng \<Rightarrow> py_error + ((npfloat \<times> npfloat) list \<times> rng)" where
  "random_normal loc scale g =
     (if np_less scale (Fin 0) then Inl ValueError
      else Inr (map (\<lambda>k. (np_add (fst (loc ! k)) (np_mul scale (Fin (gauss g (gpos g + 2 * k)))),
                            np_add (snd (loc ! k)) (np_mul scale (Fin (gauss g (gpos g + 2 * k + 1))))))
                  [0..<length loc],
                g\<lparr>gpos := gpos g + 2 * length loc\<rparr>))"

text \<open>
  \<open>random.randint(low, high, n)\<close>: \<open>n\<close> integers of \<open>[low, high)\<close>, the upper bound
  excluded; numpy raises ValueError when \<open>low >= high\<close>.
\<close>

definition random_randint :: "int \<Rightarrow> int \<Rightarrow> nat \<Rightarrow> rng \<Rightarrow> py_error + (int list \<times> rng)" where
  "random_randint low high n g =
     (if low \<ge> high then Inl ValueError
      else Inr (map (\<lambda>k. low + \<lfloor>uniform g (upos g + k) * real_of_int (high - low)\<rfloor>) [0..<n],
                g\<lparr>upos := upos g + n\<rparr>))"

text \<open>
  \<open>positions[:, 0] = us * w\<close> and \<open>positions[:, 1] = us * h\<close>: the assignment of a column.
\<close>

definition set_column0 :: "(npfloat \<times> npfloat) list \<Rightarrow> npfloat list \<Rightarrow> (npfloat \<times> npfloat) list" where
  "set_column0 pos vs = map (\<lambda>(p, v). (v, snd p)) (zip pos vs)"

definition set_column1 :: "(npfloat \<times> npfloat) list \<Rightarrow> npfloat list \<Rightarrow> (npfloat \<times> npfloat) list" where
  "set_column1 pos vs = map (\<lambda>(p, v). (fst p, v)) (zip pos vs)"

text \<open>
  Lines 42-43 and 113-114: the positions of frame 0, uniform over the frame.
\<close>

definition initial_positions :: "sim_params \<Rightarrow> spots \<Rightarrow> rng \<Rightarrow> spots \<times> rng" where
  "initial_positions params s g =
     (let (us, g1) = random_rand (num_spots params) g;
          s1 = s\<lparr>positions := set_column0 (positions s)
                  (map (\<lambda>u. Fin (u * real_of_int (fst (frame_size params)))) us)\<rparr>;
          (vs, g2) = random_rand (num_spots params) g1;
          s2 = s1\<lparr>positions := set_column1 (positions s1)
                  (map (\<lambda>v. Fin (v * real_of_int (snd (frame_size params)))) vs)\<rparr>
      in (s2, g2))"

section \<open>simulation.py: simulate, the spot records (lines 36-71)\<close>

text \<open>
  Lines 59-71: \<open>filter\<close> is lazy, so the variate that decides whether a spot bleaches is
  drawn when the loop reaches that spot, after the draws for the spots before it.
\<close>

fun bleach_loop :: "sim_params \<Rightarrow> nat list \<Rightarrow> spots \<Rightarrow> rng \<Rightarrow> py_error + (spots \<times> rng)" where
  "bleach_loop params [] s g = Inr (s, g)"
| "bleach_loop params (spot # rest) s g =
     (let (u, g1) = random_rand1 g in
      if u < 1 / bleach_time params then
        (let (u0, g2) = random_rand1 g1;
             s1 = s\<lparr>positions := (positions s)
                     [spot := (Fin (u0 * real_of_int (fst (frame_size params))),
                               snd (positions s ! spot))]\<rparr>;
             (u1, g3) = random_rand1 g2;
             s2 = s1\<lparr>positions := (positions s1)
                     [spot := (fst (positions s1 ! spot),
                               Fin (u1 * real_of_int (snd (frame_size params))))]\<rparr>
         in case np_max (traj_num s2) of
              Inl e \<Rightarrow> Inl e
            | Inr m \<Rightarrow>
                (let next_traj_num = m + 1
                 in bleach_loop params rest
                      (s2\<lparr>traj_num := (traj_num s2)[spot := next_traj_num]\<rparr>) g3))
      else bleach_loop params rest s g1)"

text \<open>Line 47.\<close>

definition diffusion_step :: "sim_params \<Rightarrow> npfloat" where
  "diffusion_step params =
     np_div (np_sqrt (Fin (2 * diffusionCoeff params * frameTime params)))
            (Fin (pixelSize params))"

text \<open>Lines 52-71, the body of the loop over the frames.\<close>

definition simulate_frame ::
  "sim_params \<Rightarrow> npfloat \<Rightarrow> nat \<Rightarrow> spots list \<times> rng \<Rightarrow> py_error + (spots list \<times> rng)" where
  "simulate_frame params S fr st =
     (let real_spots = fst st; g = snd st;
          cur = (real_spots ! fr)\<lparr>frame := int fr\<rparr>;
          cur1 = cur\<lparr>traj_num := traj_num (real_spots ! (fr - 1))\<rparr>
      in case random_normal (positions (real_spots ! (fr - 1))) S g of
           Inl e \<Rightarrow> Inl e
         | Inr (pos, g1) \<Rightarrow>
             (let cur2 = cur1\<lparr>positions := pos\<rparr> in
              if bleach_time params > 0 then
                (case bleach_loop params [0..<num_spots params] cur2 g1 of
                   Inl e \<Rightarrow> Inl e
                 | Inr (cur3, g2) \<Rightarrow> Inr (real_spots[fr := cur3], g2))
              else Inr (real_spots[fr := cur2], g1)))"

fun simulate_frames ::
  "sim_params \<Rightarrow> npfloat \<Rightarrow> nat list \<Rightarrow> spots list \<times> rng \<Rightarrow> py_error + (spots list \<times> rng)" where
  "simulate_frames params S [] st = Inr st"
| "simulate_frames params S (fr # frs) st =
     (case simulate_frame params S fr st of
        Inl e \<Rightarrow> Inl e
      | Inr st' \<Rightarrow> simulate_frames params S frs st')"

text \<open>
  Lines 39-71: the result is \<open>real_spots\<close> as it is when the rendering starts.  With no
  frame, \<open>real_spots[0]\<close> raises IndexError.
\<close>

definition simulate_spots :: "sim_params \<Rightarrow> rng \<Rightarrow> py_error + spots list" where
  "simulate_spots params g =
     (let real_spots = replicate (num_frames params) (Spots (num_spots params)) in
      if num_frames params = 0 then Inl IndexError
      else
        (let (s0, g1) = initial_positions params (real_spots ! 0) g;
             real_spots0 = real_spots[0 := s0\<lparr>frame := 0\<rparr>];
             S = diffusion_step params
         in case simulate_frames params S [1..<num_frames params] (real_spots0, g1) of
              Inl e \<Rightarrow> Inl e
            | Inr st \<Rightarrow> Inr (fst st)))"

section \<open>simulation.py: simulate_stepwise_bleaching, the spot records (lines 107-145)\<close>

text \<open>Lines 116-119.\<close>

definition initial_n_mols :: "sim_params \<Rightarrow> rng \<Rightarrow> py_error + (int list \<times> rng)" where
  "initial_n_mols params g =
     (case num_spot_molecules params of
        Some v \<Rightarrow> Inr (replicate (num_spots params) (1 * v), g)
      | None \<Rightarrow> random_randint 1 (max_spot_molecules params) (num_spots params) g)"

text \<open>
  Lines 143-145: \<open>range(n_mols[i])\<close> is evaluated once, so the number of trials is the
  count the spot has when the loop starts.
\<close>

fun bleach_trials :: "real \<Rightarrow> nat \<Rightarrow> nat \<Rightarrow> int list \<Rightarrow> rng \<Rightarrow> int list \<times> rng" where
  "bleach_trials p 0 i n_mols g = (n_mols, g)"
| "bleach_trials p (Suc m) i n_mols g =
     (let (u, g1) = random_rand1 g in
      bleach_trials p m i (if u < p then n_mols[i := n_mols ! i - 1] else n_mols) g1)"

text \<open>Lines 141-145.\<close>

fun photobleach :: "real \<Rightarrow> nat list \<Rightarrow> int list \<Rightarrow> rng \<Rightarrow> int list \<times> rng" where
  "photobleach p [] n_mols g = (n_mols, g)"
| "photobleach p (i # is) n_mols g =
     (if n_mols ! i > 0 then
        (let (n_mols1, g1) = bleach_trials p (nat (n_mols ! i)) i n_mols g
         in photobleach p is n_mols1 g1)
      else photobleach p is n_mols g)"

text \<open>
  The state of the loop over the frames: \<open>real_spots\<close>, \<open>n_mols\<close> and the random source.
\<close>

record stepwise_state =
  real_spots_of :: "spots list"
  n_mols_of :: "int list"
  rng_of :: rng

text \<open>Lines 134-145, the body of the loop over the frames; \<open>S\<close> is 0.\<close>

definition stepwise_frame :: "sim_params \<Rightarrow> nat \<Rightarrow> stepwise_state \<Rightarrow> py_error + stepwise_state" where
  "stepwise_frame params fr st =
     (let real_spots = real_spots_of st; n_mols = n_mols_of st;
          cur = (real_spots ! fr)\<lparr>frame := int fr\<rparr>;
          cur1 = cur\<lparr>spot_intensity :=
                   map (\<lambda>m. Fin (Isingle params * real_of_int m)) n_mols\<rparr>;
          cur2 = cur1\<lparr>traj_num := traj_num (real_spots ! (fr - 1))\<rparr>
      in case random_normal (positions (real_spots ! (fr - 1))) (Fin 0) (rng_of st) of
           Inl e \<Rightarrow> Inl e
         | Inr (pos, g1) \<Rightarrow>
             (let cur3 = cur2\<lparr>positions := pos\<rparr>;
                  (n_mols1, g2) =
                     photobleach (p_bleach_per_frame params) [0..<num_spots params] n_mols g1
              in Inr \<lparr> real_spots_of = real_spots[fr := cur3], n_mols_of = n_mols1,
                       rng_of = g2 \<rparr>))"

fun stepwise_frames ::
  "sim_params \<Rightarrow> nat list \<Rightarrow> stepwise_state \<Rightarrow> py_error + stepwise_state" where
  "stepwise_frames params [] st = Inr st"
| "stepwise_frames params (fr # frs) st =
     (case stepwise_frame params fr st of
        Inl e \<Rightarrow> Inl e
      | Inr st' \<Rightarrow> stepwise_frames params frs st')"

text \<open>
  Lines 110-123: the state when the loop over the frames starts.  Line 123 stores the
  frame index 1 in the record of frame 0.
\<close>

definition stepwise_init :: "sim_params \<Rightarrow> rng \<Rightarrow> py_error + stepwise_state" where
  "stepwise_init params g =
     (let real_spots = replicate (num_frames params) (Spots (num_spots params)) in
      if num_frames params = 0 then Inl IndexError
      else
        (let (s0, g1) = initial_positions params (real_spots ! 0) g
         in case initial_n_mols params g1 of
              Inl e \<Rightarrow> Inl e
            | Inr (n_mols, g2) \<Rightarrow>
                (let s1 = s0\<lparr>spot_intensity :=
                             map (\<lambda>m. Fin (Isingle params * real_of_int m)) n_mols\<rparr>;
                     s2 = s1\<lparr>frame := 1\<rparr>
                 in Inr \<lparr> real_spots_of = real_spots[0 := s2], n_mols_of = n_mols,
                          rng_of = g2 \<rparr>)))"

text \<open>
  The state after the iterations for the frames \<open>1, ..., k\<close>; the whole loop is
  \<open>k = num_frames - 1\<close>.
\<close>

definition stepwise_after :: "sim_params \<Rightarrow> rng \<Rightarrow> nat \<Rightarrow> py_error + stepwise_state" where
  "stepwise_after params g k =
     (case stepwise_init params g of
        Inl e \<Rightarrow> Inl e
      | Inr st \<Rightarrow> stepwise_frames params [1..<Suc k] st)"

text \<open>
  Lines 110-145: \<open>real_spots\<close> as it is when the rendering starts, and \<open>gtruth\<close>, the
  copy of the initial \<open>n_mols\<close>.
\<close>

definition simulate_stepwise_bleaching_spots ::
  "sim_params \<Rightarrow> rng \<Rightarrow> py_error + (spots list \<times> int list)" where
  "simulate_stepwise_bleaching_spots params g =
     (case stepwise_init params g of
        Inl e \<Rightarrow> Inl e
      | Inr st \<Rightarrow>
          (let gtruth = n_mols_of st
           in case stepwise_frames params [1..<num_frames params] st of
                Inl e \<Rightarrow> Inl e
              | Inr st' \<Rightarrow> Inr (real_spots_of st', gtruth)))"

section \<open>Example inputs\<close>

text \<open>
  One spot of two molecules over two frames of an 8 by 8 image, each molecule bleaching
  with probability 1 in a frame; and a random source whose uniform variates are all
  \<open>1/2\<close> and whose normal variates are all 0.
\<close>

definition example_params :: sim_params where
  "example_params =
     \<lparr> num_spots = 1, num_frames = 2, frame_size = (8, 8), diffusionCoeff = 0, frameTime = 1,
       pixelSize = 1, bleach_time = 0, Isingle = 100, num_spot_molecules = Some 2,
       max_spot_molecules = 2, p_bleach_per_frame = 1 \<rparr>"

definition example_rng :: rng where
  "example_rng = \<lparr> uniform = (\<lambda>k. 1/2), upos = 0, gauss = (\<lambda>k. 0), gpos = 0 \<rparr>"

text \<open>
  A 4 by 4 field with the two equal maxima 5 side by side, a smaller value 3 next to
  them, and a 9 on the border.
\<close>

definition example_field :: "int list list" where
  "example_field = [[0, 0, 0, 0], [0, 5, 5, 0], [0, 3, 0, 0], [0, 0, 0, 9]]"

text \<open>The 3 by 3 mask that is foreground everywhere.\<close>

definition example_mask :: "int list list" where
  "example_mask = [[1, 1, 1], [1, 1, 1], [1, 1, 1]]"

text \<open>The 33 by 33 mask that is foreground everywhere.\<close>

definition full_mask :: "int list list" where
  "full_mask = replicate 33 (replicate 33 1)"

section \<open>Properties of get_distance_list\<close>

lemma distance_map_nth:
  "i < L \<Longrightarrow> j < L \<Longrightarrow>
   distance_map r L ! i ! j = sqrt (real_of_int ((int i - r)\<^sup>2 + (int j - r)\<^sup>2))"
  by (simp add: distance_map_def)

lemma distance_entries_mem:
  assumes "x \<in> set (distance_entries r L (distance_map r L))"
  shows "\<exists>i j. i < L \<and> j < L \<and> x = (int i - r, int j - r,
            sqrt (real_of_int ((int i - r)\<^sup>2 + (int j - r)\<^sup>2))) \<and>
            sqrt (real_of_int ((int i - r)\<^sup>2 + (int j - r)\<^sup>2)) \<le> real_of_int r"
proof -
  from assms obtain i j where ij: "i < L" "j < L"
    and x: "x \<in> set (if distance_map r L ! i ! j \<le> real_of_int r
                      then [(int i - r, int j - r, distance_map r L ! i ! j)] else [])"
    by (auto simp: distance_entries_def)
  from x ij show ?thesis
    by (auto simp: distance_map_nth split: if_splits)
qed

lemma distance_entries_intro:
  assumes "i < L" "j < L"
    and "sqrt (real_of_int ((int i - r)\<^sup>2 + (int j - r)\<^sup>2)) \<le> real_of_int r"
  shows "(int i - r, int j - r, sqrt (real_of_int ((int i - r)\<^sup>2 + (int j - r)\<^sup>2)))
           \<in> set (distance_entries r L (distance_map r L))"
  using assms unfolding distance_entries_def
  by (auto simp: distance_map_nth intro!: bexI [of _ i] bexI [of _ j])

lemma get_distance_list_Inr:
  "0 \<le> r \<Longrightarrow> get_distance_list r =
     Inr (sort_key distance_key
            (distance_entries r (nat (2 * r + 1)) (distance_map r (nat (2 * r + 1)))))"
  by (simp add: get_distance_list_def Let_def)

lemma get_distance_list_mem:
  assumes "0 \<le> r" "get_distance_list r = Inr dl" "(dx, dy, d) \<in> set dl"
  shows "d = sqrt (real_of_int (dx\<^sup>2 + dy\<^sup>2)) \<and> d \<le> real_of_int r \<and>
         - r \<le> dx \<and> dx \<le> r \<and> - r \<le> dy \<and> dy \<le> r"
proof -
  from assms(1,2) have "dl = sort_key distance_key
      (distance_entries r (nat (2 * r + 1)) (distance_map r (nat (2 * r + 1))))"
    by (simp add: get_distance_list_Inr)
  with assms(3) have "(dx, dy, d) \<in> set (distance_entries r (nat (2 * r + 1))
                                       (distance_map r (nat (2 * r + 1))))"
    by simp
  from distance_entries_mem [OF this] obtain i j where
    ij: "i < nat (2 * r + 1)" "j < nat (2 * r + 1)"
    and e: "dx = int i - r" "dy = int j - r"
      "d = sqrt (real_of_int ((int i - r)\<^sup>2 + (int j - r)\<^sup>2))"
    and le: "sqrt (real_of_int ((int i - r)\<^sup>2 + (int j - r)\<^sup>2)) \<le> real_of_int r"
    by auto
  from ij e le assms(1) show ?thesis by auto
qed

lemma get_distance_list_sorted:
  "get_distance_list r = Inr dl \<Longrightarrow> sorted (map distance_key dl)"
  by (auto simp: get_distance_list_def Let_def split: if_splits)

text \<open>
  C2: for every integer radius \<open>r \<ge> 0\<close> the distance-list builder returns a list in
  which every triple \<open>(dx, dy, distance)\<close> has \<open>distance = sqrt (dx\<^sup>2 + dy\<^sup>2) \<le> r\<close>
  with \<open>dx\<close> and \<open>dy\<close> in \<open>[- r, r]\<close>, and the list is sorted non-decreasingly by the
  distance component.
\<close>

theorem get_distance_list_in_disk_sorted:
  assumes "0 \<le> r"
  shows "\<exists>dl. get_distance_list r = Inr dl \<and>
           (\<forall>(dx, dy, d) \<in> set dl.
               d = sqrt (real_of_int (dx\<^sup>2 + dy\<^sup>2)) \<and> d \<le> real_of_int r \<and>
               - r \<le> dx \<and> dx \<le> r \<and> - r \<le> dy \<and> dy \<le> r) \<and>
           sorted (map (\<lambda>(dx, dy, d). d) dl)"
proof -
  obtain dl where dl: "get_distance_list r = Inr dl"
    using assms by (simp add: get_distance_list_Inr)
  have "\<forall>(dx, dy, d) \<in> set dl.
          d = sqrt (real_of_int (dx\<^sup>2 + dy\<^sup>2)) \<and> d \<le> real_of_int r \<and>
          - r \<le> dx \<and> dx \<le> r \<and> - r \<le> dy \<and> dy \<le> r"
    using get_distance_list_mem [OF assms dl] by blast
  moreover have "(\<lambda>(dx, dy, d). d) = distance_key"
    by (auto simp: distance_key_def fun_eq_iff)
  then have "sorted (map (\<lambda>(dx, dy, d). d) dl)"
    using get_distance_list_sorted [OF dl] by simp
  ultimately show ?thesis using dl by blast
qed


lemma get_distance_list_1:
  "get_distance_list 1 = Inr [(0, 0, 0), (- 1, 0, 1), (0, - 1, 1), (0, 1, 1), (1, 0, 1)]"
  by (simp add: get_distance_list_def Let_def distance_entries_def distance_map_def
      distance_key_def upt_conv_Cons eval_nat_numeral)

theorem get_distance_list_in_disk_sorted_witness:
  "(0::int) \<le> 1 \<and>
   (\<exists>dl. get_distance_list 1 = Inr dl \<and>
      dl = [(0, 0, 0), (- 1, 0, 1), (0, - 1, 1), (0, 1, 1), (1, 0, 1)] \<and>
      (\<forall>(dx, dy, d) \<in> set dl.
          d = sqrt (real_of_int (dx\<^sup>2 + dy\<^sup>2)) \<and> d \<le> real_of_int 1 \<and>
          - 1 \<le> dx \<and> dx \<le> 1 \<and> - 1 \<le> dy \<and> dy \<le> 1) \<and>
      sorted (map (\<lambda>(dx, dy, d). d) dl))"
proof -
  have h: "(0::int) \<le> 1" by simp
  from get_distance_list_in_disk_sorted [OF h] obtain dl where
    dl: "get_distance_list 1 = Inr dl"
    and disk: "\<forall>(dx, dy, d) \<in> set dl.
       d = sqrt (real_of_int (dx\<^sup>2 + dy\<^sup>2)) \<and> d \<le> real_of_int 1 \<and>
       - 1 \<le> dx \<and> dx \<le> 1 \<and> - 1 \<le> dy \<and> dy \<le> 1"
    and srt: "sorted (map (\<lambda>(dx, dy, d). d) dl)"
    by blast
  from dl have eq: "dl = [(0, 0, 0), (- 1, 0, 1), (0, - 1, 1), (0, 1, 1), (1, 0, 1)]"
    by (simp add: get_distance_list_1)
  from h dl eq disk srt show ?thesis by blast
qed

section \<open>Properties of find_local_maxima\<close>

lemma np_max_Cons: "np_max (x # xs) = Inr (Max (set (x # xs)))"
  unfolding np_max_def Max.set_eq_fold by simp

lemma slice3:
  assumes "1 \<le> k" "k + 1 < length xs"
  shows "slice (k - 1) (k + 2) xs = [xs ! (k - 1), xs ! k, xs ! (k + 1)]"
proof (rule nth_equalityI)
  show "length (slice (k - 1) (k + 2) xs) = length [xs ! (k - 1), xs ! k, xs ! (k + 1)]"
    using assms by (simp add: slice_def)
next
  fix m assume "m < length (slice (k - 1) (k + 2) xs)"
  with assms have m: "m < 3" by (simp add: slice_def)
  then consider "m = 0" | "m = 1" | "m = 2" by linarith
  then show "slice (k - 1) (k + 2) xs ! m = [xs ! (k - 1), xs ! k, xs ! (k + 1)] ! m"
    using assms by cases (simp_all add: slice_def)
qed

lemma rect_row_length: "rect img \<Longrightarrow> a < length img \<Longrightarrow> length (img ! a) = shape1 img"
  by (simp add: rect_def)

lemma window_interior:
  assumes "rect img" "1 \<le> i" "i + 1 < shape0 img" "1 \<le> j" "j + 1 < shape1 img"
  shows "window img i j =
     [img ! (i - 1) ! (j - 1), img ! (i - 1) ! j, img ! (i - 1) ! (j + 1),
      img ! i ! (j - 1), img ! i ! j, img ! i ! (j + 1),
      img ! (i + 1) ! (j - 1), img ! (i + 1) ! j, img ! (i + 1) ! (j + 1)]"
proof -
  from assms(3) have l: "i + 1 < length img" by (simp add: shape0_def)
  from l have r: "length (img ! (i - 1)) = shape1 img" "length (img ! i) = shape1 img"
    "length (img ! (i + 1)) = shape1 img"
    using rect_row_length [OF assms(1)] by simp_all
  have s0: "slice (i - 1) (i + 2) img = [img ! (i - 1), img ! i, img ! (i + 1)]"
    using slice3 [OF assms(2) l] .
  have s1: "slice (j - 1) (j + 2) row = [row ! (j - 1), row ! j, row ! (j + 1)]"
    if "length row = shape1 img" for row
    using slice3 [OF assms(4), of row] assms(5) that by simp
  note t = s1 [OF r(1)] s1 [OF r(2)] s1 [OF r(3)]
  show ?thesis
    unfolding window_def s0 list.map concat.simps t by simp
qed

lemma three_interval: "1 \<le> k \<Longrightarrow> {k - 1..k + 1} = {k - 1, k, k + (1::nat)}"
  by auto

lemma np_max_eq_iff:
  assumes "v \<in> set xs" "np_max xs = Inr m"
  shows "(m = v) = (\<forall>y \<in> set xs. y \<le> v)"
proof -
  from assms(1) obtain x rest where xs: "xs = x # rest" by (cases xs) auto
  from assms(2) have m: "m = Max (set xs)" unfolding xs np_max_Cons by simp
  have "finite (set xs)" "set xs \<noteq> {}" using assms(1) by auto
  from Max_eq_iff [OF this] assms(1) show ?thesis unfolding m by blast
qed

lemma window_ball:
  assumes "rect img" "1 \<le> i" "i + 1 < shape0 img" "1 \<le> j" "j + 1 < shape1 img"
  shows "(\<forall>y \<in> set (window img i j). P y) =
         (\<forall>a \<in> {i - 1..i + 1}. \<forall>b \<in> {j - 1..j + 1}. P (img ! a ! b))"
  unfolding window_interior [OF assms] three_interval [OF assms(2)] three_interval [OF assms(4)]
  by (simp only: list.set ball_simps insert_iff empty_iff Ball_def) blast

lemma maxima_cols_eq:
  assumes "rect img" "1 \<le> i" "i + 1 < shape0 img"
  shows "\<forall>j \<in> set js. 1 \<le> j \<and> j + 1 < shape1 img \<Longrightarrow>
         maxima_cols img i js acc = Inr (acc @ [(i, j). j \<leftarrow> js, qualifies img i j])"
proof (induction js arbitrary: acc)
  case Nil
  then show ?case by simp
next
  case (Cons j js)
  from Cons.prems have j: "1 \<le> j" "j + 1 < shape1 img"
    and rest: "\<forall>j \<in> set js. 1 \<le> j \<and> j + 1 < shape1 img" by simp_all
  note ih = Cons.IH [OF rest]
  show ?case
  proof (cases "img ! i ! j = 0")
    case True
    then show ?thesis by (simp add: ih qualifies_def)
  next
    case False
    from window_interior [OF assms j] have mem: "img ! i ! j \<in> set (window img i j)" by simp
    then obtain m where m: "np_max (window img i j) = Inr m"
      by (cases "window img i j") (auto simp: np_max_Cons)
    have q: "(m = img ! i ! j) = qualifies img i j"
      unfolding np_max_eq_iff [OF mem m] window_ball [OF assms j] qualifies_def
      using False by simp
    show ?thesis
      using False m q by (simp add: ih)
  qed
qed

lemma maxima_rows_eq:
  assumes "rect img"
  shows "\<forall>i \<in> set is. 1 \<le> i \<and> i + 1 < shape0 img \<Longrightarrow>
         maxima_rows img is acc =
           Inr (acc @ [(i, j). i \<leftarrow> is, j \<leftarrow> [1..<shape1 img - 1], qualifies img i j])"
proof (induction "is" arbitrary: acc)
  case Nil
  then show ?case by simp
next
  case (Cons i "is")
  from Cons.prems have i: "1 \<le> i" "i + 1 < shape0 img"
    and rest: "\<forall>i \<in> set is. 1 \<le> i \<and> i + 1 < shape0 img" by simp_all
  have cols: "\<forall>j \<in> set [1..<shape1 img - 1]. 1 \<le> j \<and> j + 1 < shape1 img" by auto
  show ?case
    unfolding maxima_rows.simps maxima_cols_eq [OF assms i cols] sum.case Cons.IH [OF rest]
    by simp
qed

lemma find_local_maxima_eq:
  assumes "rect img"
  shows "find_local_maxima img =
     Inr [(i, j). i \<leftarrow> [1..<shape0 img - 1], j \<leftarrow> [1..<shape1 img - 1], qualifies img i j]"
proof -
  have "\<forall>i \<in> set [1..<shape0 img - 1]. 1 \<le> i \<and> i + 1 < shape0 img" by auto
  from maxima_rows_eq [OF assms this, of "[]"] show ?thesis
    by (simp add: find_local_maxima_def)
qed

lemma row_major_inner:
  "sorted_wrt (<) js \<Longrightarrow> sorted_wrt row_major [(i, j). j \<leftarrow> js, Q i j]"
  by (induction js) (auto simp: row_major_def)

lemma row_major_outer:
  "sorted_wrt (<) is \<Longrightarrow> sorted_wrt (<) js \<Longrightarrow>
   sorted_wrt row_major [(i, j). i \<leftarrow> is, j \<leftarrow> js, Q i j]"
proof (induction "is")
  case Nil
  then show ?case by simp
next
  case (Cons i "is")
  have a: "sorted_wrt row_major [(i, j). j \<leftarrow> js, Q i j]"
    using Cons.prems(2) by (rule row_major_inner)
  have b: "sorted_wrt row_major [(i', j). i' \<leftarrow> is, j \<leftarrow> js, Q i' j]"
    using Cons.IH Cons.prems by simp
  have c: "row_major p q" if "p \<in> set [(i, j). j \<leftarrow> js, Q i j]"
    "q \<in> set [(i', j). i' \<leftarrow> is, j \<leftarrow> js, Q i' j]" for p q
    using that Cons.prems(1) by (auto simp: row_major_def split: if_splits)
  have "[(i', j). i' \<leftarrow> i # is, j \<leftarrow> js, Q i' j] =
        [(i, j). j \<leftarrow> js, Q i j] @ [(i', j). i' \<leftarrow> is, j \<leftarrow> js, Q i' j]" by simp
  then show ?case using a b c by (simp only: sorted_wrt_append) blast
qed

lemma example_field_rect: "rect example_field"
  by (simp add: rect_def example_field_def shape1_def)

lemma example_field_maxima:
  "find_local_maxima example_field = Inr [(1, 1), (1, 2)]"
  by (simp add: find_local_maxima_def example_field_def shape0_def shape1_def upt_conv_Cons
      window_def slice_def np_max_def)


text \<open>
  C3: for every two-dimensional field, \<open>find_local_maxima\<close> returns exactly the interior
  coordinates \<open>(i, j)\<close>, with \<open>1 \<le> i \<le> rows - 2\<close> and \<open>1 \<le> j \<le> cols - 2\<close>, whose value
  is non-zero and greater than or equal to every value of their 3 by 3 neighbourhood, in
  row-major scan order.
\<close>

theorem find_local_maxima_exact:
  assumes "rect img"
  shows "\<exists>ms. find_local_maxima img = Inr ms \<and>
     ms = [(i, j). i \<leftarrow> [1..<shape0 img - 1], j \<leftarrow> [1..<shape1 img - 1],
             img ! i ! j \<noteq> 0 \<and>
             (\<forall>a \<in> {i - 1..i + 1}. \<forall>b \<in> {j - 1..j + 1}. img ! a ! b \<le> img ! i ! j)] \<and>
     set ms = {(i, j). 1 \<le> i \<and> i + 2 \<le> shape0 img \<and> 1 \<le> j \<and> j + 2 \<le> shape1 img \<and>
                 img ! i ! j \<noteq> 0 \<and>
                 (\<forall>a \<in> {i - 1..i + 1}. \<forall>b \<in> {j - 1..j + 1}. img ! a ! b \<le> img ! i ! j)} \<and>
     sorted_wrt (\<lambda>p q. fst p < fst q \<or> (fst p = fst q \<and> snd p < snd q)) ms"
proof -
  let ?ms = "[(i, j). i \<leftarrow> [1..<shape0 img - 1], j \<leftarrow> [1..<shape1 img - 1], qualifies img i j]"
  have e: "find_local_maxima img = Inr ?ms" by (rule find_local_maxima_eq [OF assms])
  have s: "set ?ms = {(i, j). 1 \<le> i \<and> i + 2 \<le> shape0 img \<and> 1 \<le> j \<and> j + 2 \<le> shape1 img \<and>
                 qualifies img i j}"
    by auto
  have "sorted_wrt row_major ?ms"
    by (rule row_major_outer) simp_all
  moreover have "row_major = (\<lambda>p q. fst p < fst q \<or> (fst p = fst q \<and> snd p < snd q))"
    by (auto simp: row_major_def fun_eq_iff)
  ultimately have o: "sorted_wrt (\<lambda>p q. fst p < fst q \<or> (fst p = fst q \<and> snd p < snd q)) ?ms"
    by simp
  from e s o show ?thesis unfolding qualifies_def by blast
qed

theorem find_local_maxima_exact_witness:
  "rect example_field \<and>
   (\<exists>ms. find_local_maxima example_field = Inr ms \<and> ms = [(1, 1), (1, 2)] \<and>
      set ms = {(i, j). 1 \<le> i \<and> i + 2 \<le> shape0 example_field \<and>
                 1 \<le> j \<and> j + 2 \<le> shape1 example_field \<and>
                 example_field ! i ! j \<noteq> 0 \<and>
                 (\<forall>a \<in> {i - 1..i + 1}. \<forall>b \<in> {j - 1..j + 1}.
                     example_field ! a ! b \<le> example_field ! i ! j)} \<and>
      sorted_wrt (\<lambda>p q. fst p < fst q \<or> (fst p = fst q \<and> snd p < snd q)) ms)"
proof -
  from find_local_maxima_exact [OF example_field_rect] obtain ms where
    m: "find_local_maxima example_field = Inr ms"
    and s: "set ms = {(i, j). 1 \<le> i \<and> i + 2 \<le> shape0 example_field \<and>
                 1 \<le> j \<and> j + 2 \<le> shape1 example_field \<and>
                 example_field ! i ! j \<noteq> 0 \<and>
                 (\<forall>a \<in> {i - 1..i + 1}. \<forall>b \<in> {j - 1..j + 1}.
                     example_field ! a ! b \<le> example_field ! i ! j)}"
    and o: "sorted_wrt (\<lambda>p q. fst p < fst q \<or> (fst p = fst q \<and> snd p < snd q)) ms"
    by blast
  from m have "ms = [(1, 1), (1, 2)]" unfolding example_field_maxima by simp
  with m s o example_field_rect show ?thesis by blast
qed

section \<open>Properties of fwhm\<close>

lemma trail_walk_reaches_bound:
  assumes "n < length data"
  shows "i \<le> n \<Longrightarrow> \<forall>k. i \<le> k \<and> k < n \<longrightarrow> same_sign data k \<Longrightarrow>
         trail_walk data (int n) i = Inr n"
proof (induction "n - i" arbitrary: i)
  case 0
  then have "i = n" by simp
  with assms show ?case by (subst trail_walk.simps) simp
next
  case (Suc d)
  then have lt: "i < n" by simp
  with Suc.prems have s: "same_sign data i" by simp
  from Suc(2) have d: "d = n - Suc i" by simp
  have "trail_walk data (int n) (Suc i) = Inr n"
    using Suc(1) [OF d] lt Suc.prems(2) by simp
  with lt s assms show ?case by (subst trail_walk.simps) simp
qed

lemma fwhm_leading_fields:
  assumes "fwhm_leading data0 = Inr (data, N, c, ev, lead_t)"
  shows "data0 \<noteq> [] \<and> length data = length data0 \<and> N = int (length data0) - 1 \<and>
         c < 256 \<and> ev = int c"
proof -
  from assms obtain m where m: "np_max data0 = Inr m"
    by (cases "np_max data0") (simp_all add: fwhm_leading_def)
  then have ne: "data0 \<noteq> []" by (auto simp: np_max_def)
  from assms m obtain c' where c': "centre_of (normalise data0 m) = Inr c'"
    by (cases "centre_of (normalise data0 m)") (simp_all add: fwhm_leading_def Let_def)
  from assms m c' obtain ev' where ev': "x_at c' = Inr ev'"
    by (cases "x_at c'") (simp_all add: fwhm_leading_def Let_def)
  from assms m c' ev' obtain i where i: "lead_walk (normalise data0 m) 1 = Inr i"
    by (cases "lead_walk (normalise data0 m) 1") (simp_all add: fwhm_leading_def Let_def)
  from assms m c' ev' i obtain lt where lt: "crossing (normalise data0 m) i = Inr lt"
    by (cases "crossing (normalise data0 m) i") (simp_all add: fwhm_leading_def Let_def)
  from assms m c' ev' i lt have r: "data = normalise data0 m" "N = int (length (normalise data0 m)) - 1"
    "c = c'" "ev = ev'"
    by (auto simp: fwhm_leading_def Let_def)
  from ev' have "c' < 256" "ev' = int c'" by (auto simp: x_at_def split: if_splits)
  with r ne show ?thesis by (simp add: normalise_def)
qed

lemma example_profile_lead_walk:
  "lead_walk [Fin 0, Fin (1/2), Fin 1, Fin 1, Fin (3/4)] (Suc 0) = Inr (Suc 0)"
  by (subst lead_walk.simps) (simp add: same_sign_def np_sub_def np_equal_def)

lemma example_profile_leading:
  "fwhm_leading [0, 2, 4, 4, 3] =
     Inr ([Fin 0, Fin (1/2), Fin 1, Fin 1, Fin (3/4)], 4, 2, 2, Fin 1)"
  by (simp add: fwhm_leading_def np_max_def normalise_def centre_of_def np_argmax_def
      x_at_def crossing_def np_sub_def Let_def example_profile_lead_walk)

lemma example_profile_same_sign:
  "same_sign [Fin 0, Fin (1/2), Fin 1, Fin 1, Fin (3/4)] 3"
  by (simp add: same_sign_def np_sub_def np_equal_def)

lemma example_rising_lead_walk:
  "lead_walk [Fin 0, Fin (1/9), Fin (1/3), Fin (8/9), Fin 1] (Suc 0) = Inr 3"
proof -
  have a: "lead_walk [Fin 0, Fin (1/9), Fin (1/3), Fin (8/9), Fin 1] 3 = Inr 3"
    by (subst lead_walk.simps) (simp add: same_sign_def np_sub_def np_equal_def)
  have b: "lead_walk [Fin 0, Fin (1/9), Fin (1/3), Fin (8/9), Fin 1] 2 =
           lead_walk [Fin 0, Fin (1/9), Fin (1/3), Fin (8/9), Fin 1] 3"
    by (subst lead_walk.simps) (simp add: same_sign_def np_sub_def np_equal_def eval_nat_numeral)
  have c: "lead_walk [Fin 0, Fin (1/9), Fin (1/3), Fin (8/9), Fin 1] (Suc 0) =
           lead_walk [Fin 0, Fin (1/9), Fin (1/3), Fin (8/9), Fin 1] 2"
    by (subst lead_walk.simps) (simp add: same_sign_def np_sub_def np_equal_def eval_nat_numeral)
  from a b c show ?thesis by simp
qed

lemma example_rising_leading:
  "fwhm_leading [0, 1, 3, 8, 9] =
     Inr ([Fin 0, Fin (1/9), Fin (1/3), Fin (8/9), Fin 1], 4, 4, 4, Fin (23/10))"
  by (simp add: fwhm_leading_def np_max_def normalise_def centre_of_def np_argmax_def
      x_at_def crossing_def np_sub_def Let_def example_rising_lead_walk)

lemma example_peak_at_last_index: "fwhm [0, 1] = Inl IndexError"
proof -
  have l: "lead_walk [Fin 0, Fin 1] (Suc 0) = Inr (Suc 0)"
    by (subst lead_walk.simps) (simp add: same_sign_def np_sub_def np_equal_def)
  have t: "trail_walk [Fin 0, Fin 1] 1 (Suc (Suc 0)) = Inl IndexError"
    by (subst trail_walk.simps) simp
  have "fwhm_leading [0, 1] = Inr ([Fin 0, Fin 1], 1, 1, 1, Fin (1/2))"
    by (simp add: fwhm_leading_def np_max_def normalise_def centre_of_def np_argmax_def
        x_at_def crossing_def np_sub_def Let_def l)
  then show ?thesis by (simp add: fwhm_def t)
qed

text \<open>
  When the peak is not the last sample, the walk that finds no sign change up to the
  index \<open>N - 1\<close> ends at \<open>N\<close>, and the width is 0.
\<close>

lemma fwhm_width_0_inside:
  assumes "fwhm_leading data0 = Inr (data, N, centre_index, extremum_val, lead_t)"
    and "int centre_index + 1 \<le> N"
    and "\<forall>i. int centre_index + 1 \<le> int i \<and> int i \<le> N - 1 \<longrightarrow> same_sign data i"
  shows "fwhm data0 = Inr (Fin 0, extremum_val) \<and> extremum_val = int centre_index"
proof -
  from fwhm_leading_fields [OF assms(1)] have f: "data0 \<noteq> []" "length data = length data0"
    "N = int (length data0) - 1" "extremum_val = int centre_index" by simp_all
  define n where "n = length data0 - 1"
  from f(1,3) have N: "N = int n" by (cases data0) (simp_all add: n_def)
  from f(1,2) have nl: "n < length data" by (cases data0) (simp_all add: n_def)
  from assms(2) N have le: "centre_index + 1 \<le> n" by simp
  from assms(3) N have all: "\<forall>k. centre_index + 1 \<le> k \<and> k < n \<longrightarrow> same_sign data k"
    by auto
  have "trail_walk data N (centre_index + 1) = Inr n"
    unfolding N by (rule trail_walk_reaches_bound [OF nl le all])
  with assms(1) N f(4) show ?thesis by (simp add: fwhm_def)
qed

lemma fwhm_width_0_inside_example:
  "fwhm_leading [0, 2, 4, 4, 3] =
     Inr ([Fin 0, Fin (1/2), Fin 1, Fin 1, Fin (3/4)], 4, 2, 2, Fin 1) \<and>
   int 2 + 1 \<le> (4::int) \<and>
   same_sign [Fin 0, Fin (1/2), Fin 1, Fin 1, Fin (3/4)] 3 \<and>
   fwhm [0, 2, 4, 4, 3] = Inr (Fin 0, 2)"
proof -
  have a: "int 2 + 1 \<le> (4::int)" by simp
  have b: "\<forall>i. int 2 + 1 \<le> int i \<and> int i \<le> 4 - 1 \<longrightarrow>
             same_sign [Fin 0, Fin (1/2), Fin 1, Fin 1, Fin (3/4)] i"
  proof (intro allI impI)
    fix i :: nat assume "int 2 + 1 \<le> int i \<and> int i \<le> 4 - 1"
    then have "i = 3" by simp
    with example_profile_same_sign
    show "same_sign [Fin 0, Fin (1/2), Fin 1, Fin 1, Fin (3/4)] i" by simp
  qed
  from fwhm_width_0_inside [OF example_profile_leading a b]
  have "fwhm [0, 2, 4, 4, 3] = Inr (Fin 0, 2)" by simp
  with example_profile_leading a example_profile_same_sign show ?thesis by blast
qed

text \<open>
  C4 (on every profile whose rightward walk from the peak reaches the bound without a
  sign change, \<open>fwhm\<close> returns normally with the width 0 and the peak position) fails when
  the peak is the last sample of the profile: the walk starts at the index \<open>N + 1\<close>,
  line 78 reads \<open>data[N + 1]\<close> before it looks at the bound, and \<open>fwhm\<close> raises IndexError
  instead of returning the width 0.
\<close>

theorem fwhm_peak_at_last_index_raises:
  assumes "fwhm_leading data0 = Inr (data, N, centre_index, extremum_val, lead_t)"
    and "int centre_index = N"
  shows "fwhm data0 = Inl IndexError"
proof -
  from fwhm_leading_fields [OF assms(1)] have f: "data0 \<noteq> []" "length data = length data0"
    "N = int (length data0) - 1" by simp_all
  from f assms(2) have "length data = centre_index + 1" by (cases data0) simp_all
  then have "trail_walk data N (centre_index + 1) = Inl IndexError"
    by (subst trail_walk.simps) simp
  with assms(1) show ?thesis by (simp add: fwhm_def)
qed

theorem fwhm_peak_at_last_index_raises_witness:
  "fwhm_leading [0, 1, 3, 8, 9] =
     Inr ([Fin 0, Fin (1/9), Fin (1/3), Fin (8/9), Fin 1], 4, 4, 4, Fin (23/10)) \<and>
   int 4 = (4::int) \<and>
   fwhm [0, 1, 3, 8, 9] = Inl IndexError"
proof -
  have a: "int 4 = (4::int)" by simp
  from fwhm_peak_at_last_index_raises [OF example_rising_leading a]
  have "fwhm [0, 1, 3, 8, 9] = Inl IndexError" .
  with example_rising_leading a show ?thesis by blast
qed

section \<open>Properties of the stepwise-bleach simulator\<close>

lemma valid_rng_upos [simp]: "valid_rng (g\<lparr>upos := n\<rparr>) = valid_rng g"
  by (simp add: valid_rng_def)

lemma valid_rng_gpos [simp]: "valid_rng (g\<lparr>gpos := n\<rparr>) = valid_rng g"
  by (simp add: valid_rng_def)

lemma random_rand1_valid:
  "random_rand1 g = (u, g') \<Longrightarrow> valid_rng g \<Longrightarrow> valid_rng g' \<and> 0 \<le> u \<and> u < 1"
  by (auto simp: random_rand1_def valid_rng_def)

lemma bleach_trials_props:
  "bleach_trials p m i n g = (n', g') \<Longrightarrow>
     length n' = length n \<and> (\<forall>k. k \<noteq> i \<longrightarrow> n' ! k = n ! k) \<and>
     n' ! i \<le> n ! i \<and> n ! i - int m \<le> n' ! i"
proof (induction m arbitrary: n g)
  case 0
  then show ?case by simp
next
  case (Suc m)
  obtain u g1 where r: "random_rand1 g = (u, g1)" by (cases "random_rand1 g")
  let ?n1 = "if u < p then n[i := n ! i - 1] else n"
  from Suc.prems r have "bleach_trials p m i ?n1 g1 = (n', g')" by simp
  from Suc.IH [OF this] have ih: "length n' = length ?n1"
    "\<forall>k. k \<noteq> i \<longrightarrow> n' ! k = ?n1 ! k" "n' ! i \<le> ?n1 ! i" "?n1 ! i - int m \<le> n' ! i"
    by blast+
  have a: "length ?n1 = length n" by simp
  have b: "\<forall>k. k \<noteq> i \<longrightarrow> ?n1 ! k = n ! k" by simp
  have c: "?n1 ! i \<le> n ! i \<and> n ! i - 1 \<le> ?n1 ! i"
    by (cases "i < length n") (auto simp: list_update_beyond)
  from ih a b c show ?case by auto
qed

lemma bleach_trials_zero:
  "bleach_trials p m i n g = (n', g') \<Longrightarrow> valid_rng g \<Longrightarrow> p \<le> 0 \<Longrightarrow> n' = n \<and> valid_rng g'"
proof (induction m arbitrary: n g)
  case 0
  then show ?case by simp
next
  case (Suc m)
  obtain u g1 where r: "random_rand1 g = (u, g1)" by (cases "random_rand1 g")
  from random_rand1_valid [OF r Suc.prems(2)] have v: "valid_rng g1" "0 \<le> u" by simp_all
  with Suc.prems(3) have "\<not> u < p" by simp
  with Suc.prems r have "bleach_trials p m i n g1 = (n', g')" by simp
  from Suc.IH [OF this v(1) Suc.prems(3)] show ?case .
qed

lemma photobleach_props:
  "photobleach p is n g = (n', g') \<Longrightarrow>
     length n' = length n \<and> (\<forall>k. n' ! k \<le> n ! k \<and> (0 \<le> n ! k \<longrightarrow> 0 \<le> n' ! k))"
proof (induction "is" arbitrary: n g)
  case Nil
  then show ?case by simp
next
  case (Cons i "is")
  show ?case
  proof (cases "n ! i > 0")
    case True
    obtain n1 g1 where t: "bleach_trials p (nat (n ! i)) i n g = (n1, g1)"
      by (cases "bleach_trials p (nat (n ! i)) i n g")
    from Cons.prems True t have "photobleach p is n1 g1 = (n', g')" by simp
    from Cons.IH [OF this] have ih: "length n' = length n1"
      "\<forall>k. n' ! k \<le> n1 ! k \<and> (0 \<le> n1 ! k \<longrightarrow> 0 \<le> n' ! k)" by blast+
    from bleach_trials_props [OF t] True have bt: "length n1 = length n"
      "\<forall>k. k \<noteq> i \<longrightarrow> n1 ! k = n ! k" "n1 ! i \<le> n ! i" "0 \<le> n1 ! i" by auto
    have "\<forall>k. n1 ! k \<le> n ! k \<and> (0 \<le> n ! k \<longrightarrow> 0 \<le> n1 ! k)"
    proof
      fix k show "n1 ! k \<le> n ! k \<and> (0 \<le> n ! k \<longrightarrow> 0 \<le> n1 ! k)"
        using bt by (cases "k = i") auto
    qed
    with ih bt(1) show ?thesis by (metis order_trans)
  next
    case False
    with Cons.prems have "photobleach p is n g = (n', g')" by simp
    from Cons.IH [OF this] show ?thesis .
  qed
qed

lemma photobleach_zero:
  "photobleach p is n g = (n', g') \<Longrightarrow> valid_rng g \<Longrightarrow> p \<le> 0 \<Longrightarrow> n' = n \<and> valid_rng g'"
proof (induction "is" arbitrary: n g)
  case Nil
  then show ?case by simp
next
  case (Cons i "is")
  show ?case
  proof (cases "n ! i > 0")
    case True
    obtain n1 g1 where t: "bleach_trials p (nat (n ! i)) i n g = (n1, g1)"
      by (cases "bleach_trials p (nat (n ! i)) i n g")
    from Cons.prems True t have "photobleach p is n1 g1 = (n', g')" by simp
    moreover from bleach_trials_zero [OF t Cons.prems(2,3)] have "n1 = n" "valid_rng g1" by simp_all
    ultimately show ?thesis using Cons.IH Cons.prems(3) by blast
  next
    case False
    with Cons.prems have "photobleach p is n g = (n', g')" by simp
    from Cons.IH [OF this Cons.prems(2,3)] show ?thesis .
  qed
qed

lemma random_normal_zero:
  "\<exists>pos. random_normal loc (Fin 0) g = Inr (pos, g\<lparr>gpos := gpos g + 2 * length loc\<rparr>)"
  by (simp add: random_normal_def)

lemma stepwise_frame_Inr:
  "\<exists>st'. stepwise_frame params fr st = Inr st'"
  using random_normal_zero [of "positions (real_spots_of st ! (fr - 1))" "rng_of st"]
  by (auto simp: stepwise_frame_def Let_def split: prod.splits)

lemma stepwise_frame_n_mols:
  assumes "stepwise_frame params fr st = Inr st'"
  shows "\<exists>g1. photobleach (p_bleach_per_frame params) [0..<num_spots params] (n_mols_of st)
       ((rng_of st)\<lparr>gpos := g1\<rparr>) = (n_mols_of st', rng_of st')"
proof -
  obtain pos where p: "random_normal (positions (real_spots_of st ! (fr - 1))) (Fin 0) (rng_of st)
     = Inr (pos, (rng_of st)\<lparr>gpos := gpos (rng_of st) + 2 * length (positions (real_spots_of st ! (fr - 1)))\<rparr>)"
    using random_normal_zero by blast
  obtain n1 g2 where q: "photobleach (p_bleach_per_frame params) [0..<num_spots params] (n_mols_of st)
       ((rng_of st)\<lparr>gpos := gpos (rng_of st) + 2 * length (positions (real_spots_of st ! (fr - 1)))\<rparr>) = (n1, g2)"
    by (metis surj_pair)
  from assms p q have "n_mols_of st' = n1" "rng_of st' = g2"
    by (auto simp: stepwise_frame_def Let_def)
  with q show ?thesis by blast
qed

lemma stepwise_frames_Inr:
  "\<exists>st'. stepwise_frames params frs st = Inr st'"
proof (induction frs arbitrary: st)
  case Nil
  then show ?case by simp
next
  case (Cons fr frs)
  obtain st1 where "stepwise_frame params fr st = Inr st1"
    using stepwise_frame_Inr by blast
  with Cons.IH [of st1] show ?case by simp
qed

lemma stepwise_frames_snoc:
  "stepwise_frames params (frs @ [fr]) st =
     (case stepwise_frames params frs st of
        Inl e \<Rightarrow> Inl e
      | Inr st1 \<Rightarrow> stepwise_frame params fr st1)"
  by (induction frs arbitrary: st) (auto split: sum.splits)

lemma stepwise_after_Suc:
  "stepwise_after params g (Suc k) =
     (case stepwise_after params g k of
        Inl e \<Rightarrow> Inl e
      | Inr st \<Rightarrow> stepwise_frame params (Suc k) st)"
  by (simp add: stepwise_after_def stepwise_frames_snoc split: sum.splits)

lemma stepwise_after_0: "stepwise_after params g 0 = stepwise_init params g"
  by (simp add: stepwise_after_def split: sum.splits)

lemma stepwise_after_Inr:
  "stepwise_init params g = Inr st0 \<Longrightarrow> \<exists>st. stepwise_after params g k = Inr st"
  using stepwise_frames_Inr by (simp add: stepwise_after_def)

lemma stepwise_frame_counts:
  assumes "stepwise_frame params fr st = Inr st'"
  shows "length (n_mols_of st') = length (n_mols_of st) \<and>
         (\<forall>i. n_mols_of st' ! i \<le> n_mols_of st ! i \<and>
              (0 \<le> n_mols_of st ! i \<longrightarrow> 0 \<le> n_mols_of st' ! i))"
  using stepwise_frame_n_mols [OF assms] photobleach_props by blast

lemma stepwise_frame_counts_zero:
  assumes "stepwise_frame params fr st = Inr st'" "valid_rng (rng_of st)"
    "p_bleach_per_frame params \<le> 0"
  shows "n_mols_of st' = n_mols_of st \<and> valid_rng (rng_of st')"
proof -
  from stepwise_frame_n_mols [OF assms(1)] obtain g1 where
    "photobleach (p_bleach_per_frame params) [0..<num_spots params] (n_mols_of st)
       ((rng_of st)\<lparr>gpos := g1\<rparr>) = (n_mols_of st', rng_of st')" by blast
  from photobleach_zero [OF this] assms(2,3) show ?thesis by simp
qed

lemma initial_positions_valid:
  "initial_positions params s g = (s', g') \<Longrightarrow> valid_rng g' = valid_rng g"
  by (auto simp: initial_positions_def random_rand_def Let_def split: prod.splits)

lemma initial_n_mols_valid:
  "initial_n_mols params g = Inr (n, g') \<Longrightarrow> valid_rng g' = valid_rng g"
  by (auto simp: initial_n_mols_def random_randint_def split: option.splits if_splits)

lemma stepwise_init_valid:
  "stepwise_init params g = Inr st0 \<Longrightarrow> valid_rng (rng_of st0) = valid_rng g"
  by (auto simp: stepwise_init_def Let_def split: prod.splits if_splits sum.splits
      dest: initial_positions_valid initial_n_mols_valid)

lemma stepwise_after_counts_zero:
  assumes "stepwise_init params g = Inr st0" "valid_rng g" "p_bleach_per_frame params \<le> 0"
    "stepwise_after params g k = Inr st"
  shows "n_mols_of st = n_mols_of st0 \<and> valid_rng (rng_of st)"
  using assms(4)
proof (induction k arbitrary: st)
  case 0
  with assms(1,2) show ?case by (simp add: stepwise_after_0 stepwise_init_valid)
next
  case (Suc k)
  from stepwise_after_Inr [OF assms(1)] obtain st1 where
    st1: "stepwise_after params g k = Inr st1" by blast
  with Suc.prems have "stepwise_frame params (Suc k) st1 = Inr st"
    by (simp add: stepwise_after_Suc)
  from stepwise_frame_counts_zero [OF this] Suc.IH [OF st1] assms(3) show ?case by simp
qed

lemma stepwise_after_nonneg:
  assumes "stepwise_init params g = Inr st0" "stepwise_after params g k = Inr st"
    "0 \<le> n_mols_of st0 ! i"
  shows "0 \<le> n_mols_of st ! i"
  using assms(2)
proof (induction k arbitrary: st)
  case 0
  with assms(1,3) show ?case by (simp add: stepwise_after_0)
next
  case (Suc k)
  from stepwise_after_Inr [OF assms(1)] obtain st1 where
    st1: "stepwise_after params g k = Inr st1" by blast
  with Suc.prems have "stepwise_frame params (Suc k) st1 = Inr st"
    by (simp add: stepwise_after_Suc)
  from stepwise_frame_counts [OF this] Suc.IH [OF st1] show ?case by simp
qed


lemmas example_simps =
  example_params_def example_rng_def stepwise_after_def stepwise_init_def Let_def
  initial_positions_def random_rand_def initial_n_mols_def set_column0_def set_column1_def
  Spots_def stepwise_frame_def random_normal_def random_rand1_def random_randint_def
  eval_nat_numeral

lemma example_valid_rng: "valid_rng example_rng"
  by (simp add: valid_rng_def example_rng_def)

lemma example_stepwise_init:
  "stepwise_init example_params example_rng =
     Inr \<lparr> real_spots_of =
             [\<lparr>frame = 1, positions = [(Fin 4, Fin 4)], traj_num = [0],
                spot_intensity = [Fin 200]\<rparr>,
              \<lparr>frame = 0, positions = [(Fin 0, Fin 0)], traj_num = [0],
                spot_intensity = [Fin 0]\<rparr>],
            n_mols_of = [2],
            rng_of = \<lparr>uniform = \<lambda>k. 1 / 2, upos = 2, gauss = \<lambda>k. 0, gpos = 0\<rparr> \<rparr>"
  by (simp add: example_simps)

lemma example_stepwise_after_1:
  "stepwise_after example_params example_rng (Suc 0) =
     Inr \<lparr> real_spots_of =
             [\<lparr>frame = 1, positions = [(Fin 4, Fin 4)], traj_num = [0],
                spot_intensity = [Fin 200]\<rparr>,
              \<lparr>frame = 1, positions = [(Fin 4, Fin 4)], traj_num = [0],
                spot_intensity = [Fin 200]\<rparr>],
            n_mols_of = [0],
            rng_of = \<lparr>uniform = \<lambda>k. 1 / 2, upos = 4, gauss = \<lambda>k. 0, gpos = 2\<rparr> \<rparr>"
  by (simp add: example_simps)


lemma stepwise_frame_spots:
  assumes "stepwise_frame params fr st = Inr st'"
  shows "length (real_spots_of st') = length (real_spots_of st) \<and>
         (\<forall>k. k \<noteq> fr \<longrightarrow> real_spots_of st' ! k = real_spots_of st ! k) \<and>
         (fr < length (real_spots_of st) \<longrightarrow> frame (real_spots_of st' ! fr) = int fr)"
  using assms
  by (auto simp: stepwise_frame_def Let_def random_normal_def split: prod.splits if_splits)

lemma stepwise_frames_spots:
  "stepwise_frames params frs st = Inr st' \<Longrightarrow>
     length (real_spots_of st') = length (real_spots_of st) \<and>
     (\<forall>k < length (real_spots_of st).
        (k \<in> set frs \<longrightarrow> frame (real_spots_of st' ! k) = int k) \<and>
        (k \<notin> set frs \<longrightarrow> real_spots_of st' ! k = real_spots_of st ! k))"
proof (induction frs arbitrary: st)
  case Nil
  then show ?case by simp
next
  case (Cons fr frs)
  from Cons.prems obtain st1 where s1: "stepwise_frame params fr st = Inr st1"
    and r: "stepwise_frames params frs st1 = Inr st'"
    by (auto split: sum.splits)
  note a = stepwise_frame_spots [OF s1]
  note b = Cons.IH [OF r]
  show ?case
  proof (intro conjI allI impI)
    show "length (real_spots_of st') = length (real_spots_of st)" using a b by simp
  next
    fix k assume k: "k < length (real_spots_of st)" and m: "k \<in> set (fr # frs)"
    show "frame (real_spots_of st' ! k) = int k"
    proof (cases "k \<in> set frs")
      case True
      with a b k show ?thesis by simp
    next
      case False
      with m have "k = fr" by simp
      with False a b k show ?thesis by simp
    qed
  next
    fix k assume k: "k < length (real_spots_of st)" and m: "k \<notin> set (fr # frs)"
    with a b show "real_spots_of st' ! k = real_spots_of st ! k" by simp
  qed
qed

lemma stepwise_init_spots:
  "stepwise_init params g = Inr st0 \<Longrightarrow>
     length (real_spots_of st0) = num_frames params \<and> 0 < num_frames params \<and>
     frame (real_spots_of st0 ! 0) = 1"
  by (auto simp: stepwise_init_def Let_def split: prod.splits if_splits sum.splits)


lemma example_simulate_stepwise:
  "simulate_stepwise_bleaching_spots example_params example_rng =
     Inr ([\<lparr>frame = 1, positions = [(Fin 4, Fin 4)], traj_num = [0],
                spot_intensity = [Fin 200]\<rparr>,
           \<lparr>frame = 1, positions = [(Fin 4, Fin 4)], traj_num = [0],
                spot_intensity = [Fin 200]\<rparr>], [2])"
  by (simp add: simulate_stepwise_bleaching_spots_def example_simps)


section \<open>Properties of the continuous-bleach simulator\<close>

lemma bleach_loop_props:
  "bleach_loop params spts s g = Inr (s', g') \<Longrightarrow> frame s' = frame s"
proof (induction spts arbitrary: s g)
  case Nil
  then show ?case by simp
next
  case (Cons spot rest)
  from Cons.prems show ?case
    by (auto simp: Let_def split: prod.splits if_splits sum.splits dest!: Cons.IH)
qed

lemma simulate_frame_spots:
  assumes "simulate_frame params S fr st = Inr st'"
  shows "length (fst st') = length (fst st) \<and>
         (\<forall>k. k \<noteq> fr \<longrightarrow> fst st' ! k = fst st ! k) \<and>
         (fr < length (fst st) \<longrightarrow> frame (fst st' ! fr) = int fr) \<and>
         (fr < length (fst st) \<and> bleach_time params \<le> 0 \<longrightarrow>
            traj_num (fst st' ! fr) = traj_num (fst st ! (fr - 1)))"
  using assms
  by (auto simp: simulate_frame_def Let_def split: prod.splits if_splits sum.splits
      dest: bleach_loop_props)

lemma simulate_frames_spots:
  "simulate_frames params S frs st = Inr st' \<Longrightarrow>
     length (fst st') = length (fst st) \<and>
     (\<forall>k < length (fst st).
        (k \<in> set frs \<longrightarrow> frame (fst st' ! k) = int k) \<and>
        (k \<notin> set frs \<longrightarrow> fst st' ! k = fst st ! k))"
proof (induction frs arbitrary: st)
  case Nil
  then show ?case by simp
next
  case (Cons fr frs)
  from Cons.prems obtain st1 where s1: "simulate_frame params S fr st = Inr st1"
    and r: "simulate_frames params S frs st1 = Inr st'"
    by (auto split: sum.splits)
  note a = simulate_frame_spots [OF s1]
  note b = Cons.IH [OF r]
  show ?case
  proof (intro conjI allI impI)
    show "length (fst st') = length (fst st)" using a b by simp
  next
    fix k assume k: "k < length (fst st)" and m: "k \<in> set (fr # frs)"
    show "frame (fst st' ! k) = int k"
    proof (cases "k \<in> set frs")
      case True
      with a b k show ?thesis by simp
    next
      case False
      with m have "k = fr" by simp
      with False a b k show ?thesis by simp
    qed
  next
    fix k assume k: "k < length (fst st)" and m: "k \<notin> set (fr # frs)"
    with a b show "fst st' ! k = fst st ! k" by simp
  qed
qed

lemma simulate_frames_traj:
  "simulate_frames params S [a..<a + n] st = Inr st' \<Longrightarrow> bleach_time params \<le> 0 \<Longrightarrow>
   0 < a \<Longrightarrow> a + n \<le> length (fst st) \<Longrightarrow>
     (\<forall>k. a \<le> k \<and> k < a + n \<longrightarrow> traj_num (fst st' ! k) = traj_num (fst st ! (a - 1))) \<and>
     (\<forall>k < a. fst st' ! k = fst st ! k)"
proof (induction n arbitrary: a st)
  case 0
  then show ?case by auto
next
  case (Suc n)
  have u: "[a..<a + Suc n] = a # [Suc a..<Suc a + n]" by (simp add: upt_conv_Cons)
  from Suc.prems(1) obtain st1 where s1: "simulate_frame params S a st = Inr st1"
    and r: "simulate_frames params S [Suc a..<Suc a + n] st1 = Inr st'"
    unfolding u by (auto split: sum.splits)
  note p = simulate_frame_spots [OF s1]
  from p Suc.prems have len: "Suc a + n \<le> length (fst st1)" by simp
  from Suc.IH [OF r Suc.prems(2) _ len]
  have ih: "\<forall>k. Suc a \<le> k \<and> k < Suc a + n \<longrightarrow> traj_num (fst st' ! k) = traj_num (fst st1 ! a)"
    "\<forall>k < Suc a. fst st' ! k = fst st1 ! k" by simp_all
  from p Suc.prems have ta: "traj_num (fst st1 ! a) = traj_num (fst st ! (a - 1))" by simp
  show ?case
  proof (intro conjI allI impI)
    fix k assume k: "a \<le> k \<and> k < a + Suc n"
    show "traj_num (fst st' ! k) = traj_num (fst st ! (a - 1))"
    proof (cases "k = a")
      case True
      with ih(2) ta show ?thesis by simp
    next
      case False
      with k ih(1) ta show ?thesis by simp
    qed
  next
    fix k assume "k < a"
    with ih(2) p show "fst st' ! k = fst st ! k" by simp
  qed
qed

lemma initial_positions_fields:
  "initial_positions params s g = (s', g') \<Longrightarrow> traj_num s' = traj_num s \<and> frame s' = frame s"
  by (auto simp: initial_positions_def Let_def split: prod.splits)

lemma simulate_spots_unfold:
  assumes "simulate_spots params g = Inr real_spots"
  shows "\<exists>rs0 g1 st. 0 < num_frames params \<and> length rs0 = num_frames params \<and>
           frame (rs0 ! 0) = 0 \<and> length (traj_num (rs0 ! 0)) = num_spots params \<and>
           simulate_frames params (diffusion_step params) [1..<num_frames params] (rs0, g1)
             = Inr st \<and>
           real_spots = fst st"
proof -
  from assms have n: "0 < num_frames params"
    by (auto simp: simulate_spots_def Let_def split: if_splits)
  obtain s0 g1 where i: "initial_positions params (Spots (num_spots params)) g = (s0, g1)"
    by (metis surj_pair)
  let ?rs0 = "(replicate (num_frames params) (Spots (num_spots params)))[0 := s0\<lparr>frame := 0\<rparr>]"
  from assms n i obtain st where s: "simulate_frames params (diffusion_step params)
       [1..<num_frames params] (?rs0, g1) = Inr st" "real_spots = fst st"
    by (auto simp: simulate_spots_def Let_def simp del: upt_Suc split: sum.splits)
  have l: "length ?rs0 = num_frames params" by simp
  from n have z: "?rs0 ! 0 = s0\<lparr>frame := 0\<rparr>" by simp
  have f: "frame (?rs0 ! 0) = 0" unfolding z by simp
  from initial_positions_fields [OF i] have "traj_num s0 = traj_num (Spots (num_spots params))"
    by simp
  then have t: "length (traj_num (?rs0 ! 0)) = num_spots params"
    unfolding z by (simp add: Spots_def)
  from n l f t s show ?thesis by blast
qed

lemma simulate_spots_frame_index:
  assumes "simulate_spots params g = Inr real_spots"
  shows "length real_spots = num_frames params \<and>
         (\<forall>k < length real_spots. frame (real_spots ! k) = int k)"
proof -
  from simulate_spots_unfold [OF assms] obtain rs0 g1 st where
    n: "0 < num_frames params" and l: "length rs0 = num_frames params"
    and z: "frame (rs0 ! 0) = 0"
    and f: "simulate_frames params (diffusion_step params) [1..<num_frames params] (rs0, g1)
             = Inr st"
    and r: "real_spots = fst st" by blast
  from simulate_frames_spots [OF f]
  have b1: "length (fst st) = length rs0"
    and b2: "\<And>k. k < length rs0 \<Longrightarrow> k \<in> set [1..<num_frames params] \<Longrightarrow>
               frame (fst st ! k) = int k"
    and b3: "\<And>k. k < length rs0 \<Longrightarrow> k \<notin> set [1..<num_frames params] \<Longrightarrow>
               fst st ! k = rs0 ! k"
    by simp_all
  from b1 r l have len: "length real_spots = num_frames params" by simp
  have "frame (real_spots ! k) = int k" if k: "k < length real_spots" for k
  proof (cases "k = 0")
    case True
    have "0 \<notin> set [1..<num_frames params]" by simp
    from b3 [OF _ this] n l have "fst st ! 0 = rs0 ! 0" by simp
    with True z r show ?thesis by simp
  next
    case False
    with k len have "k \<in> set [1..<num_frames params]" by simp
    from b2 [OF _ this] k len l r show ?thesis by simp
  qed
  with len show ?thesis by blast
qed

lemma example_diffusion_step: "diffusion_step example_params = Fin 0"
  by (simp add: diffusion_step_def example_params_def)

lemma example_initial_positions:
  "initial_positions example_params (Spots (num_spots example_params)) example_rng =
     (\<lparr>frame = 0, positions = [(Fin 4, Fin 4)], traj_num = [0], spot_intensity = [Fin 0]\<rparr>,
      example_rng\<lparr>upos := 2\<rparr>)"
  by (simp add: initial_positions_def random_rand_def set_column0_def set_column1_def
      Spots_def example_params_def example_rng_def Let_def)

lemma example_simulate_frame:
  "simulate_frame example_params (Fin 0) 1
     ([\<lparr>frame = 0, positions = [(Fin 4, Fin 4)], traj_num = [0], spot_intensity = [Fin 0]\<rparr>,
       \<lparr>frame = 0, positions = [(Fin 0, Fin 0)], traj_num = [0], spot_intensity = [Fin 0]\<rparr>],
      example_rng\<lparr>upos := 2\<rparr>) =
   Inr ([\<lparr>frame = 0, positions = [(Fin 4, Fin 4)], traj_num = [0], spot_intensity = [Fin 0]\<rparr>,
         \<lparr>frame = 1, positions = [(Fin 4, Fin 4)], traj_num = [0], spot_intensity = [Fin 0]\<rparr>],
        example_rng\<lparr>upos := 2, gpos := 2\<rparr>)"
  by (simp add: simulate_frame_def random_normal_def example_params_def example_rng_def Let_def)

lemma example_simulate:
  "simulate_spots example_params example_rng =
     Inr [\<lparr>frame = 0, positions = [(Fin 4, Fin 4)], traj_num = [0], spot_intensity = [Fin 0]\<rparr>,
          \<lparr>frame = 1, positions = [(Fin 4, Fin 4)], traj_num = [0], spot_intensity = [Fin 0]\<rparr>]"
proof -
  have n: "num_frames example_params = 2" "num_spots example_params = 1"
    by (simp_all add: example_params_def)
  have u: "[1..<2] = [1::nat]" by (simp add: upt_conv_Cons)
  have rs: "(replicate 2 (Spots 1))
      [0 := \<lparr>frame = 0, positions = [(Fin 4, Fin 4)], traj_num = [0], spot_intensity = [Fin 0]\<rparr>
             \<lparr>frame := 0\<rparr>] =
      [\<lparr>frame = 0, positions = [(Fin 4, Fin 4)], traj_num = [0], spot_intensity = [Fin 0]\<rparr>,
       \<lparr>frame = 0, positions = [(Fin 0, Fin 0)], traj_num = [0], spot_intensity = [Fin 0]\<rparr>]"
    by (simp add: Spots_def eval_nat_numeral)
  have i: "initial_positions example_params (Spots 1) example_rng =
     (\<lparr>frame = 0, positions = [(Fin 4, Fin 4)], traj_num = [0], spot_intensity = [Fin 0]\<rparr>,
      example_rng\<lparr>upos := 2\<rparr>)"
    using example_initial_positions unfolding n .
  have r0: "replicate 2 (Spots 1) ! 0 = Spots 1" by (simp add: eval_nat_numeral)
  show ?thesis
    unfolding simulate_spots_def Let_def n example_diffusion_step u r0 i prod.case rs
      simulate_frames.simps example_simulate_frame
    by simp
qed


text \<open>
  C5: in the continuous-bleach simulator, for every parameter set with
  \<open>bleach_time \<le> 0\<close> and every outcome of the random draws, the trajectory id of every
  spot slot is in every frame what it is in frame 0.
\<close>

theorem simulate_no_bleach_keeps_traj_num:
  assumes "bleach_time params \<le> 0" and "simulate_spots params g = Inr real_spots"
  shows "length real_spots = num_frames params \<and>
         (\<forall>k < length real_spots.
            traj_num (real_spots ! k) = traj_num (real_spots ! 0) \<and>
            length (traj_num (real_spots ! k)) = num_spots params \<and>
            (\<forall>spot < num_spots params.
               traj_num (real_spots ! k) ! spot = traj_num (real_spots ! 0) ! spot))"
proof -
  from simulate_spots_unfold [OF assms(2)] obtain rs0 g1 st where
    n: "0 < num_frames params" and l: "length rs0 = num_frames params"
    and t0: "length (traj_num (rs0 ! 0)) = num_spots params"
    and f: "simulate_frames params (diffusion_step params) [1..<num_frames params] (rs0, g1)
             = Inr st"
    and r: "real_spots = fst st" by blast
  from n obtain m where m: "num_frames params = Suc m" by (cases "num_frames params") auto
  have len: "length real_spots = num_frames params"
    using simulate_frames_spots [OF f] r l by simp
  have e: "[1..<num_frames params] = [Suc 0..<Suc 0 + m]" unfolding m by simp
  from f have f': "simulate_frames params (diffusion_step params) [Suc 0..<Suc 0 + m] (rs0, g1)
      = Inr st"
    unfolding e .
  have l0: "Suc 0 + m \<le> length (fst (rs0, g1))" using l m by simp
  have one: "0 < Suc 0" by simp
  note tr = simulate_frames_traj [OF f' assms(1) one l0]
  from tr have t: "\<forall>k. Suc 0 \<le> k \<and> k < Suc 0 + m \<longrightarrow>
             traj_num (fst st ! k) = traj_num (fst (rs0, g1) ! (Suc 0 - 1))"
    by (rule conjunct1)
  from tr have z0: "\<forall>k<Suc 0. fst st ! k = fst (rs0, g1) ! k" by (rule conjunct2)
  then have z: "fst st ! 0 = rs0 ! 0" by auto
  have eq: "traj_num (real_spots ! k) = traj_num (real_spots ! 0)"
    if k: "k < length real_spots" for k
  proof (cases "k = 0")
    case True
    then show ?thesis by simp
  next
    case False
    with k len m have "Suc 0 \<le> k \<and> k < Suc 0 + m" by simp
    with t have "traj_num (fst st ! k) = traj_num (fst (rs0, g1) ! (Suc 0 - 1))" by blast
    then have "traj_num (fst st ! k) = traj_num (rs0 ! 0)" by simp
    with z r show ?thesis by simp
  qed
  from z r t0 have l0: "length (traj_num (real_spots ! 0)) = num_spots params" by simp
  show ?thesis
  proof (intro conjI allI impI)
    show "length real_spots = num_frames params" by (rule len)
  next
    fix k assume "k < length real_spots"
    then show "traj_num (real_spots ! k) = traj_num (real_spots ! 0)" by (rule eq)
  next
    fix k assume "k < length real_spots"
    then have "traj_num (real_spots ! k) = traj_num (real_spots ! 0)" by (rule eq)
    with l0 show "length (traj_num (real_spots ! k)) = num_spots params" by simp
  next
    fix k spot assume "k < length real_spots"
    then have "traj_num (real_spots ! k) = traj_num (real_spots ! 0)" by (rule eq)
    then show "traj_num (real_spots ! k) ! spot = traj_num (real_spots ! 0) ! spot" by simp
  qed
qed

theorem simulate_no_bleach_keeps_traj_num_witness:
  "bleach_time example_params \<le> 0 \<and>
   (\<exists>real_spots. simulate_spots example_params example_rng = Inr real_spots \<and>
      length real_spots = 2 \<and>
      traj_num (real_spots ! 0) = [0] \<and> traj_num (real_spots ! 1) = traj_num (real_spots ! 0))"
proof -
  let ?rs = "[\<lparr>frame = 0, positions = [(Fin 4, Fin 4)], traj_num = [0], spot_intensity = [Fin 0]\<rparr>,
          \<lparr>frame = 1, positions = [(Fin 4, Fin 4)], traj_num = [0], spot_intensity = [Fin 0]\<rparr>]"
  have b: "bleach_time example_params \<le> 0" by (simp add: example_params_def)
  have r: "simulate_spots example_params example_rng = Inr ?rs" by (rule example_simulate)
  have t0: "traj_num (?rs ! 0) = [0]" by simp
  have two: "(1::nat) < length ?rs" by simp
  from simulate_no_bleach_keeps_traj_num [OF b r]
  have "\<forall>k < length ?rs. traj_num (?rs ! k) = traj_num (?rs ! 0)"
    by blast
  with two have "traj_num (?rs ! 1) = traj_num (?rs ! 0)" by blast
  moreover have "length ?rs = 2" by simp
  ultimately show ?thesis using b r t0 by blast
qed

section \<open>The initial molecule counts\<close>

lemma random_randint_range:
  assumes "valid_rng g" "random_randint low high n g = Inr (xs, g')"
  shows "length xs = n \<and> (\<forall>x \<in> set xs. low \<le> x \<and> x < high)"
proof -
  from assms(2) have lh: "low < high"
    and xs: "xs = map (\<lambda>k. low + \<lfloor>uniform g (upos g + k) * real_of_int (high - low)\<rfloor>) [0..<n]"
    by (auto simp: random_randint_def split: if_splits)
  have "low \<le> low + \<lfloor>u * real_of_int (high - low)\<rfloor> \<and>
        low + \<lfloor>u * real_of_int (high - low)\<rfloor> < high" if "0 \<le> u" "u < 1" for u :: real
  proof -
    from lh have p: "0 < real_of_int (high - low)" by simp
    from that(1) p have "0 \<le> u * real_of_int (high - low)" by simp
    then have a: "0 \<le> \<lfloor>u * real_of_int (high - low)\<rfloor>" by simp
    from that(2) p have "u * real_of_int (high - low) < real_of_int (high - low)" by simp
    then have b: "\<lfloor>u * real_of_int (high - low)\<rfloor> < high - low" by (simp add: floor_less_iff)
    from a b show ?thesis by simp
  qed
  with assms(1) xs show ?thesis by (auto simp: valid_rng_def)
qed

lemma random_randint_raises: "high \<le> low \<Longrightarrow> random_randint low high n g = Inl ValueError"
  by (simp add: random_randint_def)

lemma initial_n_mols_max_1_raises:
  assumes "num_spot_molecules params = None" and "max_spot_molecules params \<le> 1"
  shows "initial_n_mols params g = Inl ValueError"
  using assms by (simp add: initial_n_mols_def random_randint_raises)

lemma example_initial_n_mols:
  "initial_n_mols (example_params\<lparr>num_spot_molecules := None\<rparr>) example_rng =
     Inr ([1], example_rng\<lparr>upos := 1\<rparr>)"
  by (simp add: initial_n_mols_def random_randint_def example_params_def example_rng_def)


lemma random_randint_reaches:
  assumes "low \<le> c" "c < high"
  shows "\<exists>g. valid_rng g \<and> (\<exists>g'. random_randint low high n g = Inr (replicate n c, g'))"
proof -
  let ?u = "(real_of_int (c - low) + 1/2) / real_of_int (high - low)"
  let ?g = "\<lparr> uniform = (\<lambda>k. ?u), upos = 0, gauss = (\<lambda>k. 0), gpos = 0 \<rparr>"
  from assms have p: "0 < real_of_int (high - low)" by simp
  from assms have "real_of_int (c - low) + 1/2 < real_of_int (high - low)"
  proof -
    from assms have "c - low + 1 \<le> high - low" by simp
    then have "real_of_int (c - low) + 1 \<le> real_of_int (high - low)"
      by (metis of_int_1 of_int_add of_int_le_iff)
    then show ?thesis by simp
  qed
  with p have u1: "?u < 1" by simp
  from assms p have u0: "0 \<le> ?u" by simp
  from p have "?u * real_of_int (high - low) = real_of_int (c - low) + 1/2" by simp
  then have f: "\<lfloor>?u * real_of_int (high - low)\<rfloor> = c - low" by (simp add: floor_unique)
  have v: "valid_rng ?g" using u0 u1 by (simp add: valid_rng_def)
  have "random_randint low high n ?g = Inr (replicate n c, ?g\<lparr>upos := n\<rparr>)"
    using assms f by (simp add: random_randint_def map_replicate_const)
  with v show ?thesis by blast
qed

lemma example_max_1_raises:
  "simulate_stepwise_bleaching_spots
     (example_params\<lparr>num_spot_molecules := None, max_spot_molecules := 1\<rparr>) example_rng =
   Inl ValueError"
  by (simp add: simulate_stepwise_bleaching_spots_def stepwise_init_def initial_positions_def
      random_rand_def Let_def initial_n_mols_def random_randint_def example_params_def)

lemma gtruth_is_initial:
  assumes "simulate_stepwise_bleaching_spots params g = Inr (real_spots, gtruth)"
  shows "\<exists>st0. stepwise_init params g = Inr st0 \<and> gtruth = n_mols_of st0"
  using assms
  by (auto simp: simulate_stepwise_bleaching_spots_def Let_def split: sum.splits)

lemma initial_n_mols_at_least_1:
  assumes "valid_rng g" "num_spot_molecules params = None"
    "initial_n_mols params g = Inr (n_mols, g')" "i < length n_mols"
  shows "0 \<le> n_mols ! i"
proof -
  from random_randint_range [OF assms(1), of 1 "max_spot_molecules params" "num_spots params" n_mols g']
    assms(2,3)
  have "\<forall>x \<in> set n_mols. 1 \<le> x" by (simp add: initial_n_mols_def)
  with assms(4) have "1 \<le> n_mols ! i" by simp
  then show ?thesis by simp
qed

text \<open>
  C8 (each initial molecule count is drawn from the inclusive range
  \<open>[1, max_spot_molecules]\<close>) fails: \<open>random.randint\<close> excludes its upper bound, so
  when no fixed count is configured every count the simulator draws is at least 1 and
  strictly below \<open>max_spot_molecules\<close>.
\<close>

theorem initial_n_mols_excludes_max:
  assumes "valid_rng g" and "num_spot_molecules params = None"
    and "initial_n_mols params g = Inr (n_mols, g')"
  shows "length n_mols = num_spots params \<and>
         (\<forall>c \<in> set n_mols. 1 \<le> c \<and> c < max_spot_molecules params)"
  using assms random_randint_range [of g 1 "max_spot_molecules params" "num_spots params" n_mols g']
  by (simp add: initial_n_mols_def)

theorem initial_n_mols_excludes_max_witness:
  "valid_rng example_rng \<and>
   num_spot_molecules (example_params\<lparr>num_spot_molecules := None\<rparr>) = None \<and>
   max_spot_molecules (example_params\<lparr>num_spot_molecules := None\<rparr>) = 2 \<and>
   initial_n_mols (example_params\<lparr>num_spot_molecules := None\<rparr>) example_rng =
     Inr ([1], example_rng\<lparr>upos := 1\<rparr>) \<and>
   (1::int) < max_spot_molecules (example_params\<lparr>num_spot_molecules := None\<rparr>)"
proof -
  have n: "num_spot_molecules (example_params\<lparr>num_spot_molecules := None\<rparr>) = None" by simp
  have m: "max_spot_molecules (example_params\<lparr>num_spot_molecules := None\<rparr>) = 2"
    by (simp add: example_params_def)
  from initial_n_mols_excludes_max [OF example_valid_rng n example_initial_n_mols]
  have "(1::int) < max_spot_molecules (example_params\<lparr>num_spot_molecules := None\<rparr>)"
    by simp
  with example_valid_rng n m example_initial_n_mols show ?thesis by blast
qed

text \<open>
  C6: in the stepwise-bleach simulator, at every frame transition and for every outcome
  of the random draws, no spot's molecule count increases and no count that is
  non-negative becomes negative; with \<open>p_bleach_per_frame = 0\<close> the counts stay equal to
  the initial ground truth.
\<close>

theorem stepwise_counts_monotone:
  assumes "stepwise_init params g = Inr st0" and "Suc k < num_frames params"
  shows "\<exists>st st'. stepwise_after params g k = Inr st \<and>
           stepwise_after params g (Suc k) = Inr st' \<and>
           length (n_mols_of st') = length (n_mols_of st) \<and>
           (\<forall>i < length (n_mols_of st).
               n_mols_of st' ! i \<le> n_mols_of st ! i \<and>
               (0 \<le> n_mols_of st ! i \<longrightarrow> 0 \<le> n_mols_of st' ! i) \<and>
               (0 \<le> n_mols_of st0 ! i \<longrightarrow> 0 \<le> n_mols_of st' ! i)) \<and>
           (p_bleach_per_frame params = 0 \<and> valid_rng g \<longrightarrow>
               n_mols_of st = n_mols_of st0 \<and> n_mols_of st' = n_mols_of st0)"
proof -
  from stepwise_after_Inr [OF assms(1)] obtain st st' where
    st: "stepwise_after params g k = Inr st" and st': "stepwise_after params g (Suc k) = Inr st'"
    by blast
  from st st' have fr: "stepwise_frame params (Suc k) st = Inr st'"
    by (simp add: stepwise_after_Suc)
  note c = stepwise_frame_counts [OF fr]
  have z: "p_bleach_per_frame params = 0 \<and> valid_rng g \<longrightarrow>
               n_mols_of st = n_mols_of st0 \<and> n_mols_of st' = n_mols_of st0"
    using stepwise_after_counts_zero [OF assms(1) _ _ st]
      stepwise_after_counts_zero [OF assms(1) _ _ st'] by simp
  have nn: "\<forall>i. 0 \<le> n_mols_of st0 ! i \<longrightarrow> 0 \<le> n_mols_of st' ! i"
    using stepwise_after_nonneg [OF assms(1) st'] by blast
  from st st' c z nn show ?thesis by blast
qed

theorem stepwise_counts_monotone_witness:
  "(\<exists>st0. stepwise_init example_params example_rng = Inr st0 \<and> n_mols_of st0 = [2]) \<and>
   Suc 0 < num_frames example_params \<and>
   (\<exists>st st'. stepwise_after example_params example_rng 0 = Inr st \<and>
      stepwise_after example_params example_rng (Suc 0) = Inr st' \<and>
      n_mols_of st = [2] \<and> n_mols_of st' = [0] \<and>
      n_mols_of st' ! 0 \<le> n_mols_of st ! 0 \<and> 0 \<le> n_mols_of st' ! 0)"
proof -
  have i: "stepwise_init example_params example_rng =
     Inr \<lparr> real_spots_of =
             [\<lparr>frame = 1, positions = [(Fin 4, Fin 4)], traj_num = [0],
                spot_intensity = [Fin 200]\<rparr>,
              \<lparr>frame = 0, positions = [(Fin 0, Fin 0)], traj_num = [0],
                spot_intensity = [Fin 0]\<rparr>],
            n_mols_of = [2],
            rng_of = \<lparr>uniform = \<lambda>k. 1 / 2, upos = 2, gauss = \<lambda>k. 0, gpos = 0\<rparr> \<rparr>"
    by (rule example_stepwise_init)
  have f: "Suc 0 < num_frames example_params" by (simp add: example_params_def)
  from stepwise_counts_monotone [OF i f] obtain st st' where
    st: "stepwise_after example_params example_rng 0 = Inr st"
    and st': "stepwise_after example_params example_rng (Suc 0) = Inr st'"
    and mono: "\<forall>i < length (n_mols_of st).
               n_mols_of st' ! i \<le> n_mols_of st ! i \<and>
               (0 \<le> n_mols_of st ! i \<longrightarrow> 0 \<le> n_mols_of st' ! i)"
    by auto
  from st i have n: "n_mols_of st = [2]" by (auto simp: stepwise_after_0)
  from st' have n': "n_mols_of st' = [0]" by (auto simp: example_stepwise_after_1)
  from mono n have "n_mols_of st' ! 0 \<le> n_mols_of st ! 0 \<and> 0 \<le> n_mols_of st' ! 0"
    by simp
  with i f st st' n n' show ?thesis by auto
qed

text \<open>
  C7 (the frame index of every record equals its position in the sequence, for both
  simulators) fails for the stepwise-bleach simulator: whenever it returns, the record at
  position 0 carries the frame index 1, while every later record carries its position.
\<close>

theorem stepwise_frame_index_of_first_record:
  assumes "simulate_stepwise_bleaching_spots params g = Inr (real_spots, gtruth)"
  shows "length real_spots = num_frames params \<and> 0 < length real_spots \<and>
         frame (real_spots ! 0) = 1 \<and>
         (\<forall>k. 0 < k \<and> k < length real_spots \<longrightarrow> frame (real_spots ! k) = int k)"
proof -
  from assms obtain st0 st' where i: "stepwise_init params g = Inr st0"
    and f: "stepwise_frames params [1..<num_frames params] st0 = Inr st'"
    and r: "real_spots = real_spots_of st'"
    by (auto simp: simulate_stepwise_bleaching_spots_def Let_def split: sum.splits)
  note a = stepwise_init_spots [OF i]
  note b = stepwise_frames_spots [OF f]
  from a b r show ?thesis by auto
qed

theorem stepwise_frame_index_of_first_record_witness:
  "\<exists>real_spots gtruth.
     simulate_stepwise_bleaching_spots example_params example_rng = Inr (real_spots, gtruth) \<and>
     length real_spots = 2 \<and> frame (real_spots ! 0) = 1 \<and> frame (real_spots ! 1) = 1 \<and>
     frame (real_spots ! 0) \<noteq> int 0"
proof -
  obtain real_spots gtruth where
    r: "simulate_stepwise_bleaching_spots example_params example_rng = Inr (real_spots, gtruth)"
    by (simp add: example_simulate_stepwise)
  from stepwise_frame_index_of_first_record [OF r]
  have "length real_spots = num_frames example_params" "frame (real_spots ! 0) = 1"
    and l: "\<forall>k. 0 < k \<and> k < length real_spots \<longrightarrow> frame (real_spots ! k) = int k"
    by blast+
  moreover have "num_frames example_params = 2" by (simp add: example_params_def)
  ultimately have "length real_spots = 2" "frame (real_spots ! 0) = 1"
    "frame (real_spots ! 1) = 1" by auto
  with r show ?thesis by auto
qed



section \<open>Properties of ultimate_erode\<close>

lemma walk_distance_list_find:
  "walk_distance_list img i j dl d =
     (case List.find (lands_on_background img i j) dl of
        None \<Rightarrow> d
      | Some p \<Rightarrow> set2 d i j (distance_key p))"
  by (induction dl) (auto simp: lands_on_background_def Let_def distance_key_def)

lemma set2_length [simp]: "length (set2 d i j v) = length d"
  by (simp add: set2_def)

lemma set2_row_length [simp]: "a < length d \<Longrightarrow> length (set2 d i j v ! a) = length (d ! a)"
  by (cases "a = i") (simp_all add: set2_def)

lemma set2_nth:
  "i < length d \<Longrightarrow> j < length (d ! i) \<Longrightarrow>
   set2 d i j v ! a ! b = (if a = i \<and> b = j then v else d ! a ! b)"
  by (auto simp: set2_def nth_list_update)

lemma set2_same: "set2 d i j (d ! i ! j) = d"
  by (simp add: set2_def)

lemma walk_distance_list_zero:
  assumes "d ! i ! j = 0"
  shows "walk_distance_list img i j dl d = set2 d i j (distance_to_background img dl i j)"
proof (cases "List.find (lands_on_background img i j) dl")
  case None
  then show ?thesis
    using assms set2_same [of d i j]
    by (simp add: walk_distance_list_find distance_to_background_def)
next
  case (Some p)
  then show ?thesis
    by (simp add: walk_distance_list_find distance_to_background_def)
qed

lemma erode_cols_char:
  assumes "i < length d"
  shows "distinct js \<Longrightarrow> \<forall>j \<in> set js. j < length (d ! i) \<and> d ! i ! j = 0 \<Longrightarrow>
     (if \<exists>j \<in> set js. bad_pixel img dl i j then erode_cols img dl i js d = None
      else \<exists>d'. erode_cols img dl i js d = Some d' \<and> length d' = length d \<and>
             (\<forall>a < length d. length (d' ! a) = length (d ! a)) \<and>
             (\<forall>a b. d' ! a ! b =
                (if a = i \<and> b \<in> set js \<and> img ! i ! b \<noteq> 0
                 then distance_to_background img dl i b else d ! a ! b)))"
  using assms
proof (induction js arbitrary: d)
  case Nil
  then show ?case by simp
next
  case (Cons j js)
  from Cons.prems have dj: "j \<notin> set js" "distinct js"
    and jb: "j < length (d ! i)" "d ! i ! j = 0"
    and rest: "\<forall>k \<in> set js. k < length (d ! i) \<and> d ! i ! k = 0"
    and il: "i < length d" by auto
  show ?case
  proof (cases "img ! i ! j = 0")
    case True
    then have nb: "\<not> bad_pixel img dl i j" by (simp add: bad_pixel_def)
    from Cons.IH [OF dj(2) rest il] True nb jb show ?thesis
      by (auto split: if_splits)
  next
    case False
    let ?v = "distance_to_background img dl i j"
    let ?d1 = "set2 d i j ?v"
    have w: "walk_distance_list img i j dl d = ?d1"
      by (rule walk_distance_list_zero [OF jb(2)])
    have v: "?d1 ! i ! j = ?v" using il jb(1) by (simp add: set2_nth)
    show ?thesis
    proof (cases "?v = 0")
      case True
      with False have "bad_pixel img dl i j" by (simp add: bad_pixel_def)
      moreover have "erode_cols img dl i (j # js) d = None"
        using False w v True by (simp add: Let_def)
      ultimately show ?thesis by simp
    next
      case nz: False
      have e: "erode_cols img dl i (j # js) d = erode_cols img dl i js ?d1"
        using False w v nz by (simp add: Let_def)
      have nb: "\<not> bad_pixel img dl i j" using nz by (simp add: bad_pixel_def)
      have rest1: "\<forall>k \<in> set js. k < length (?d1 ! i) \<and> ?d1 ! i ! k = 0"
        using rest dj(1) il jb(1) by (auto simp: set2_nth)
      have il1: "i < length ?d1" using il by simp
      note ih = Cons.IH [OF dj(2) rest1 il1]
      show ?thesis
      proof (cases "\<exists>k \<in> set js. bad_pixel img dl i k")
        case True
        with ih e show ?thesis by simp
      next
        case nbs: False
        with ih obtain d' where d': "erode_cols img dl i js ?d1 = Some d'"
          "length d' = length ?d1" "\<forall>a < length ?d1. length (d' ! a) = length (?d1 ! a)"
          "\<forall>a b. d' ! a ! b =
                (if a = i \<and> b \<in> set js \<and> img ! i ! b \<noteq> 0
                 then distance_to_background img dl i b else ?d1 ! a ! b)"
          by auto
        have "\<forall>a b. d' ! a ! b =
                (if a = i \<and> b \<in> set (j # js) \<and> img ! i ! b \<noteq> 0
                 then distance_to_background img dl i b else d ! a ! b)"
          using d'(4) il jb(1) False dj(1) by (auto simp: set2_nth)
        with d'(1,2,3) e nb nbs show ?thesis by simp
      qed
    qed
  qed
qed

lemma erode_rows_char:
  "distinct is \<Longrightarrow>
   \<forall>i \<in> set is. i < length d \<and> length (d ! i) = shape1 img \<and> (\<forall>j < shape1 img. d ! i ! j = 0) \<Longrightarrow>
     (if \<exists>i \<in> set is. \<exists>j < shape1 img. bad_pixel img dl i j
      then erode_rows img dl is d = None
      else \<exists>d'. erode_rows img dl is d = Some d' \<and> length d' = length d \<and>
             (\<forall>a < length d. length (d' ! a) = length (d ! a)) \<and>
             (\<forall>a b. d' ! a ! b =
                (if a \<in> set is \<and> b < shape1 img \<and> img ! a ! b \<noteq> 0
                 then distance_to_background img dl a b else d ! a ! b)))"
proof (induction "is" arbitrary: d)
  case Nil
  then show ?case by simp
next
  case (Cons i "is")
  from Cons.prems have di: "i \<notin> set is" "distinct is"
    and il: "i < length d" and rl: "length (d ! i) = shape1 img"
    and z: "\<forall>j < shape1 img. d ! i ! j = 0"
    and rest: "\<forall>k \<in> set is. k < length d \<and> length (d ! k) = shape1 img \<and>
                 (\<forall>j < shape1 img. d ! k ! j = 0)"
    by auto
  have pre: "\<forall>j \<in> set [0..<shape1 img]. j < length (d ! i) \<and> d ! i ! j = 0"
    using rl z by simp
  have q: "(\<exists>j \<in> set [0..<shape1 img]. bad_pixel img dl i j) =
           (\<exists>j < shape1 img. bad_pixel img dl i j)" by auto
  have m: "\<And>b. (b \<in> set [0..<shape1 img]) = (b < shape1 img)" by simp
  have cols: "if \<exists>j < shape1 img. bad_pixel img dl i j
      then erode_cols img dl i [0..<shape1 img] d = None
      else \<exists>d'. erode_cols img dl i [0..<shape1 img] d = Some d' \<and> length d' = length d \<and>
             (\<forall>a < length d. length (d' ! a) = length (d ! a)) \<and>
             (\<forall>a b. d' ! a ! b =
                (if a = i \<and> b < shape1 img \<and> img ! i ! b \<noteq> 0
                 then distance_to_background img dl i b else d ! a ! b))"
    using erode_cols_char [OF il distinct_upt pre, of img dl] unfolding q m .
  show ?case
  proof (cases "\<exists>j < shape1 img. bad_pixel img dl i j")
    case True
    with cols have "erode_cols img dl i [0..<shape1 img] d = None" by auto
    with True show ?thesis by auto
  next
    case nb: False
    with cols obtain d1 where d1: "erode_cols img dl i [0..<shape1 img] d = Some d1"
      "length d1 = length d" "\<forall>a < length d. length (d1 ! a) = length (d ! a)"
      "\<forall>a b. d1 ! a ! b =
          (if a = i \<and> b < shape1 img \<and> img ! i ! b \<noteq> 0
           then distance_to_background img dl i b else d ! a ! b)"
      by auto
    have e: "erode_rows img dl (i # is) d = erode_rows img dl is d1"
      using d1(1) by simp
    have rest1: "\<forall>k \<in> set is. k < length d1 \<and> length (d1 ! k) = shape1 img \<and>
                 (\<forall>j < shape1 img. d1 ! k ! j = 0)"
      using rest d1(2,3,4) di(1) by auto
    note ih = Cons.IH [OF di(2) rest1]
    show ?thesis
    proof (cases "\<exists>k \<in> set is. \<exists>j < shape1 img. bad_pixel img dl k j")
      case True
      with ih e show ?thesis by auto
    next
      case nbs: False
      with ih obtain d' where d': "erode_rows img dl is d1 = Some d'"
        "length d' = length d1" "\<forall>a < length d1. length (d' ! a) = length (d1 ! a)"
        "\<forall>a b. d' ! a ! b =
            (if a \<in> set is \<and> b < shape1 img \<and> img ! a ! b \<noteq> 0
             then distance_to_background img dl a b else d1 ! a ! b)"
        by auto
      have p: "\<forall>a b. d' ! a ! b =
            (if a \<in> set (i # is) \<and> b < shape1 img \<and> img ! a ! b \<noteq> 0
             then distance_to_background img dl a b else d ! a ! b)"
        using d'(4) d1(4) di(1) by auto
      have l: "\<forall>a < length d. length (d' ! a) = length (d ! a)"
        using d'(3) d1(2,3) by simp
      from e d'(1,2) d1(2) l p nb nbs show ?thesis by auto
    qed
  qed
qed

lemma np_zeros_nth:
  "i < m \<Longrightarrow> j < n \<Longrightarrow> np_zeros m n ! i ! j = 0"
  by (simp add: np_zeros_def)

lemma erode_rows_field:
  "erode_rows img dl [0..<shape0 img] (np_zeros (shape0 img) (shape1 img)) =
     (if \<exists>i < shape0 img. \<exists>j < shape1 img. bad_pixel img dl i j then None
      else Some (distance_field img dl))"
proof -
  let ?d = "np_zeros (shape0 img) (shape1 img)"
  have pre: "\<forall>i \<in> set [0..<shape0 img]. i < length ?d \<and> length (?d ! i) = shape1 img \<and>
               (\<forall>j < shape1 img. ?d ! i ! j = 0)"
    by (simp add: np_zeros_def)
  have q: "(\<exists>i \<in> set [0..<shape0 img]. \<exists>j < shape1 img. bad_pixel img dl i j) =
           (\<exists>i < shape0 img. \<exists>j < shape1 img. bad_pixel img dl i j)" by auto
  have m: "\<And>a. (a \<in> set [0..<shape0 img]) = (a < shape0 img)" by simp
  have c: "if \<exists>i < shape0 img. \<exists>j < shape1 img. bad_pixel img dl i j
      then erode_rows img dl [0..<shape0 img] ?d = None
      else \<exists>d'. erode_rows img dl [0..<shape0 img] ?d = Some d' \<and> length d' = length ?d \<and>
             (\<forall>a < length ?d. length (d' ! a) = length (?d ! a)) \<and>
             (\<forall>a b. d' ! a ! b =
                (if a < shape0 img \<and> b < shape1 img \<and> img ! a ! b \<noteq> 0
                 then distance_to_background img dl a b else ?d ! a ! b))"
    using erode_rows_char [OF distinct_upt pre, of dl] unfolding q m .
  show ?thesis
  proof (cases "\<exists>i < shape0 img. \<exists>j < shape1 img. bad_pixel img dl i j")
    case True
    with c show ?thesis by simp
  next
    case False
    with c obtain d' where d': "erode_rows img dl [0..<shape0 img] ?d = Some d'"
      "length d' = length ?d" "\<forall>a < length ?d. length (d' ! a) = length (?d ! a)"
      "\<forall>a b. d' ! a ! b =
                (if a < shape0 img \<and> b < shape1 img \<and> img ! a ! b \<noteq> 0
                 then distance_to_background img dl a b else ?d ! a ! b)"
      by auto
    have "d' = distance_field img dl"
    proof (rule nth_equalityI)
      show "length d' = length (distance_field img dl)"
        using d'(2) by (simp add: distance_field_def np_zeros_def)
    next
      fix a assume "a < length d'"
      with d'(2) have a: "a < shape0 img" by (simp add: np_zeros_def)
      show "d' ! a = distance_field img dl ! a"
      proof (rule nth_equalityI)
        show "length (d' ! a) = length (distance_field img dl ! a)"
          using d'(3) a by (simp add: distance_field_def np_zeros_def)
      next
        fix b assume "b < length (d' ! a)"
        with d'(3) a have b: "b < shape1 img" by (simp add: np_zeros_def)
        show "d' ! a ! b = distance_field img dl ! a ! b"
          using d'(4) a b by (simp add: distance_field_def np_zeros_nth)
      qed
    qed
    with d'(1) False show ?thesis by simp
  qed
qed

lemma list_ex_bad:
  "list_ex (\<lambda>i. list_ex (\<lambda>j. img ! i ! j \<noteq> 0 \<and> distance_to_background img dl i j = 0)
                [0..<shape1 img]) [0..<shape0 img] =
   (\<exists>i < shape0 img. \<exists>j < shape1 img. bad_pixel img dl i j)"
  unfolding list_ex_iff bad_pixel_def set_upt Bex_def atLeastLessThan_iff by blast

lemma ultimate_erode_unfold:
  assumes "get_distance_list 16 = Inr dl"
  shows "ultimate_erode img orig =
     (if \<exists>i < shape0 img. \<exists>j < shape1 img. bad_pixel img dl i j then Inr []
      else find_local_maxima (distance_field img dl))"
proof (cases "\<exists>i < shape0 img. \<exists>j < shape1 img. bad_pixel img dl i j")
  case True
  then show ?thesis
    unfolding ultimate_erode_def assms sum.case erode_rows_field by simp
next
  case False
  then have f: "(\<exists>i < shape0 img. \<exists>j < shape1 img. bad_pixel img dl i j) = False" by blast
  show ?thesis
    unfolding ultimate_erode_def assms sum.case erode_rows_field f by simp
qed

lemma ultimate_erode_radius_unfold:
  assumes "get_distance_list r = Inr dl"
  shows "ultimate_erode_radius img r =
     (if \<exists>i < shape0 img. \<exists>j < shape1 img. bad_pixel img dl i j then Inr []
      else find_local_maxima (distance_field img dl))"
  unfolding ultimate_erode_radius_def assms sum.case list_ex_bad ..

lemma ultimate_erode_refines: "ultimate_erode img orig = ultimate_erode_radius img 16"
proof (cases "get_distance_list 16")
  case (Inl e)
  then show ?thesis by (simp add: ultimate_erode_def ultimate_erode_radius_def)
next
  case (Inr dl)
  show ?thesis
    unfolding ultimate_erode_unfold [OF Inr] ultimate_erode_radius_unfold [OF Inr] ..
qed

lemma received_distance_eq:
  assumes "i < shape0 img" "j < shape1 img"
  shows "received_distance img dl i j = distance_to_background img dl i j"
proof -
  let ?d = "np_zeros (shape0 img) (shape1 img)"
  have z: "?d ! i ! j = 0" using assms by (simp add: np_zeros_nth)
  have l: "i < length ?d" "j < length (?d ! i)" using assms by (simp_all add: np_zeros_def)
  show ?thesis
    unfolding received_distance_def walk_distance_list_zero [OF z]
    using l by (simp add: set2_nth)
qed

lemma zero_distance_entry:
  assumes "0 \<le> r" "get_distance_list r = Inr dl" "p \<in> set dl" "distance_key p = 0"
  shows "fst p = 0 \<and> fst (snd p) = 0"
proof -
  obtain dx dy d where p: "p = (dx, dy, d)" by (cases p)
  from get_distance_list_mem [OF assms(1,2)] assms(3) p
  have "d = sqrt (real_of_int (dx\<^sup>2 + dy\<^sup>2))" by blast
  with assms(4) p have "real_of_int (dx\<^sup>2 + dy\<^sup>2) = 0"
    by (simp add: distance_key_def)
  then have "dx\<^sup>2 + dy\<^sup>2 = 0" by (metis of_int_eq_0_iff)
  then have "dx = 0 \<and> dy = 0" by (simp add: sum_power2_eq_zero_iff)
  with p show ?thesis by simp
qed

lemma foreground_not_own_background:
  assumes "i < shape0 img" "j < shape1 img" "img ! i ! j \<noteq> 0" "fst p = 0" "fst (snd p) = 0"
  shows "\<not> lands_on_background img i j p"
  using assms by (simp add: lands_on_background_def Let_def)

lemma no_background_iff:
  assumes "0 \<le> r" "get_distance_list r = Inr dl"
    and "i < shape0 img" "j < shape1 img" "img ! i ! j \<noteq> 0"
  shows "(distance_to_background img dl i j = 0) =
         (\<forall>p \<in> set dl. \<not> lands_on_background img i j p)"
proof (cases "List.find (lands_on_background img i j) dl")
  case None
  then have "\<forall>p \<in> set dl. \<not> lands_on_background img i j p"
    by (auto simp: find_None_iff)
  with None show ?thesis
    by (simp add: distance_to_background_def)
next
  case (Some p)
  then have p: "p \<in> set dl" "lands_on_background img i j p"
    by (auto simp: find_Some_iff)
  have "distance_key p \<noteq> 0"
  proof
    assume "distance_key p = 0"
    from zero_distance_entry [OF assms(1,2) p(1) this]
      foreground_not_own_background [OF assms(3,4,5)] p(2)
    show False by blast
  qed
  with Some p show ?thesis
    by (auto simp: distance_to_background_def)
qed

lemma full_mask_shape: "shape0 full_mask = 33" "shape1 full_mask = 33"
  by (simp_all add: full_mask_def shape0_def shape1_def eval_nat_numeral)

lemma full_mask_nth: "a < 33 \<Longrightarrow> b < 33 \<Longrightarrow> full_mask ! a ! b = 1"
  by (simp add: full_mask_def)

lemma full_mask_no_background:
  assumes "get_distance_list 16 = Inr dl" "p \<in> set dl"
  shows "\<not> lands_on_background full_mask 16 16 p"
proof -
  obtain dx dy d where p: "p = (dx, dy, d)" by (cases p)
  have r: "(0::int) \<le> 16" by simp
  from get_distance_list_mem [OF r assms(1)] assms(2) p
  have b: "- 16 \<le> dx" "dx \<le> 16" "- 16 \<le> dy" "dy \<le> 16" by blast+
  then have n: "nat (16 + dx) < 33" "nat (16 + dy) < 33" by simp_all
  from b n show ?thesis
    unfolding p by (simp add: lands_on_background_def Let_def full_mask_shape full_mask_nth)
qed


lemma find_sorted_le:
  "sorted (map f xs) \<Longrightarrow> List.find P xs = Some x \<Longrightarrow> y \<in> set xs \<Longrightarrow> P y \<Longrightarrow> f x \<le> f y"
proof (induction xs)
  case Nil
  then show ?case by simp
next
  case (Cons a xs)
  show ?case
  proof (cases "P a")
    case True
    with Cons.prems show ?thesis by auto
  next
    case False
    with Cons.prems have "List.find P xs = Some x" "y \<in> set xs" "sorted (map f xs)" by auto
    with Cons.IH Cons.prems(4) show ?thesis by blast
  qed
qed

lemma get_distance_list_intro:
  assumes "0 \<le> r" "get_distance_list r = Inr dl"
    and "- r \<le> dx" "dx \<le> r" "- r \<le> dy" "dy \<le> r" "dx\<^sup>2 + dy\<^sup>2 \<le> r\<^sup>2"
  shows "(dx, dy, sqrt (real_of_int (dx\<^sup>2 + dy\<^sup>2))) \<in> set dl"
proof -
  let ?L = "nat (2 * r + 1)"
  let ?i = "nat (dx + r)" and ?j = "nat (dy + r)"
  from assms have i: "?i < ?L" "?j < ?L" "int ?i - r = dx" "int ?j - r = dy" by simp_all
  from assms(7) have "real_of_int (dx\<^sup>2 + dy\<^sup>2) \<le> (real_of_int r)\<^sup>2"
    by (metis of_int_le_iff of_int_power)
  then have "sqrt (real_of_int (dx\<^sup>2 + dy\<^sup>2)) \<le> real_of_int r"
    using assms(1) by (simp add: real_le_lsqrt)
  with i have "sqrt (real_of_int ((int ?i - r)\<^sup>2 + (int ?j - r)\<^sup>2)) \<le> real_of_int r" by simp
  from distance_entries_intro [OF i(1,2) this] i(3,4)
  have m: "(dx, dy, sqrt (real_of_int (dx\<^sup>2 + dy\<^sup>2)))
          \<in> set (distance_entries r ?L (distance_map r ?L))" by simp
  from assms(1,2) have "dl = sort_key distance_key (distance_entries r ?L (distance_map r ?L))"
    by (simp add: get_distance_list_Inr)
  with m show ?thesis by simp
qed

lemma distance_to_background_eqI:
  assumes "0 \<le> r" "get_distance_list r = Inr dl"
    and "- r \<le> dx" "dx \<le> r" "- r \<le> dy" "dy \<le> r" "dx\<^sup>2 + dy\<^sup>2 \<le> r\<^sup>2"
    and land: "lands_on_background img i j (dx, dy, sqrt (real_of_int (dx\<^sup>2 + dy\<^sup>2)))"
    and least: "\<forall>p \<in> set dl. lands_on_background img i j p \<longrightarrow>
                  sqrt (real_of_int (dx\<^sup>2 + dy\<^sup>2)) \<le> distance_key p"
  shows "distance_to_background img dl i j = sqrt (real_of_int (dx\<^sup>2 + dy\<^sup>2))"
proof -
  let ?e = "(dx, dy, sqrt (real_of_int (dx\<^sup>2 + dy\<^sup>2)))"
  have e: "?e \<in> set dl" by (rule get_distance_list_intro [OF assms(1-7)])
  with land obtain p where p: "List.find (lands_on_background img i j) dl = Some p"
    by (cases "List.find (lands_on_background img i j) dl") (auto simp: find_None_iff)
  then have pp: "p \<in> set dl" "lands_on_background img i j p" by (auto simp: find_Some_iff)
  have "distance_key p \<le> distance_key ?e"
    using find_sorted_le [OF get_distance_list_sorted [OF assms(2)] p e land] .
  moreover have "distance_key ?e \<le> distance_key p"
    using least pp by (simp add: distance_key_def)
  ultimately have "distance_key p = sqrt (real_of_int (dx\<^sup>2 + dy\<^sup>2))"
    by (simp add: distance_key_def)
  with p show ?thesis by (simp add: distance_to_background_def)
qed

lemma example_mask_shape: "shape0 example_mask = 3" "shape1 example_mask = 3"
  by (simp_all add: example_mask_def shape0_def shape1_def)

lemma example_mask_nth: "a < 3 \<Longrightarrow> b < 3 \<Longrightarrow> example_mask ! a ! b = 1"
proof -
  assume "a < 3" "b < 3"
  then have "a \<in> {0, 1, 2}" "b \<in> {0, 1, 2}" by auto
  then show ?thesis by (auto simp: example_mask_def)
qed

lemma example_mask_lands:
  assumes "a < 3" "b < 3"
  shows "lands_on_background example_mask a b (dx, dy, d) =
         (int a + dx < 0 \<or> 3 \<le> int a + dx \<or> int b + dy < 0 \<or> 3 \<le> int b + dy)"
proof (cases "int a + dx < 0 \<or> 3 \<le> int a + dx \<or> int b + dy < 0 \<or> 3 \<le> int b + dy")
  case True
  then show ?thesis by (auto simp: lands_on_background_def Let_def example_mask_shape)
next
  case False
  then have "nat (int a + dx) < 3" "nat (int b + dy) < 3" by auto
  from example_mask_nth [OF this] False show ?thesis
    by (simp add: lands_on_background_def Let_def example_mask_shape)
qed

lemma landing_entry_ge_1:
  assumes "0 \<le> r" "get_distance_list r = Inr dl" "p \<in> set dl"
    and "i < shape0 img" "j < shape1 img" "img ! i ! j \<noteq> 0" "lands_on_background img i j p"
  shows "1 \<le> distance_key p"
proof (rule ccontr)
  assume n: "\<not> 1 \<le> distance_key p"
  obtain dx dy d where p: "p = (dx, dy, d)" by (cases p)
  from get_distance_list_mem [OF assms(1,2)] assms(3) p
  have d: "d = sqrt (real_of_int (dx\<^sup>2 + dy\<^sup>2))" by blast
  from n p d have "sqrt (real_of_int (dx\<^sup>2 + dy\<^sup>2)) < 1" by (simp add: distance_key_def)
  then have "real_of_int (dx\<^sup>2 + dy\<^sup>2) < 1" by simp
  then have "dx\<^sup>2 + dy\<^sup>2 < 1" by linarith
  moreover have "0 \<le> dx\<^sup>2 + dy\<^sup>2" by simp
  ultimately have "dx\<^sup>2 + dy\<^sup>2 = 0" by linarith
  with d p have "distance_key p = 0" by (simp add: distance_key_def)
  from zero_distance_entry [OF assms(1,2,3) this]
    foreground_not_own_background [OF assms(4,5,6)] assms(7)
  show False by blast
qed

lemma example_mask_border_distance:
  assumes dl: "get_distance_list 16 = Inr dl" and "a < 3" "b < 3" "a \<noteq> 1 \<or> b \<noteq> 1"
  shows "distance_to_background example_mask dl a b = 1"
proof -
  have r: "(0::int) \<le> 16" by simp
  have fg: "a < shape0 example_mask" "b < shape1 example_mask" "example_mask ! a ! b \<noteq> 0"
    using assms(2,3) by (simp_all add: example_mask_shape example_mask_nth)
  have least: "\<forall>p \<in> set dl. lands_on_background example_mask a b p \<longrightarrow> 1 \<le> distance_key p"
    using landing_entry_ge_1 [OF r dl _ fg] by blast
  from assms(2,3,4) obtain dx dy :: int where
    o: "(dx = - 1 \<and> dy = 0) \<or> (dx = 1 \<and> dy = 0) \<or> (dx = 0 \<and> dy = - 1) \<or> (dx = 0 \<and> dy = 1)"
    and l: "int a + dx < 0 \<or> 3 \<le> int a + dx \<or> int b + dy < 0 \<or> 3 \<le> int b + dy"
  proof -
    from assms(2,3,4) consider "a = 0" | "a = 2" | "a = 1 \<and> b = 0" | "a = 1 \<and> b = 2"
      by linarith
    then show ?thesis
    proof cases
      case 1 then show ?thesis using that [of "- 1" 0] by simp
    next
      case 2 then show ?thesis using that [of 1 0] by simp
    next
      case 3 then show ?thesis using that [of 0 "- 1"] by simp
    next
      case 4 then show ?thesis using that [of 0 1] by simp
    qed
  qed
  from o have s: "sqrt (real_of_int (dx\<^sup>2 + dy\<^sup>2)) = 1" by auto
  from o have b: "- 16 \<le> dx" "dx \<le> 16" "- 16 \<le> dy" "dy \<le> 16" "dx\<^sup>2 + dy\<^sup>2 \<le> 16\<^sup>2"
    by auto
  have land: "lands_on_background example_mask a b (dx, dy, sqrt (real_of_int (dx\<^sup>2 + dy\<^sup>2)))"
    using l by (simp add: example_mask_lands [OF assms(2,3)])
  from distance_to_background_eqI [OF r dl b land] least s show ?thesis by simp
qed

lemma example_mask_centre_distance:
  assumes dl: "get_distance_list 16 = Inr dl"
  shows "distance_to_background example_mask dl 1 1 = 2"
proof -
  have r: "(0::int) \<le> 16" by simp
  have least: "\<forall>p \<in> set dl. lands_on_background example_mask 1 1 p \<longrightarrow> 2 \<le> distance_key p"
  proof (intro ballI impI)
    fix p assume p: "p \<in> set dl" and l: "lands_on_background example_mask 1 1 p"
    obtain ex ey d where e: "p = (ex, ey, d)" by (cases p)
    from get_distance_list_mem [OF r dl] p e
    have d: "d = sqrt (real_of_int (ex\<^sup>2 + ey\<^sup>2))" by blast
    from l e have "ex \<le> - 2 \<or> 2 \<le> ex \<or> ey \<le> - 2 \<or> 2 \<le> ey"
      by (simp add: example_mask_lands) linarith
    then have "\<bar>2\<bar> \<le> \<bar>ex\<bar> \<or> \<bar>2\<bar> \<le> \<bar>ey\<bar>" by auto
    then have "2\<^sup>2 \<le> ex\<^sup>2 \<or> 2\<^sup>2 \<le> ey\<^sup>2" by (simp only: abs_le_square_iff)
    then have "4 \<le> ex\<^sup>2 \<or> 4 \<le> ey\<^sup>2" by simp
    moreover have "0 \<le> ex\<^sup>2" "0 \<le> ey\<^sup>2" by simp_all
    ultimately have "4 \<le> ex\<^sup>2 + ey\<^sup>2" by linarith
    then have "real_of_int 4 \<le> real_of_int (ex\<^sup>2 + ey\<^sup>2)" by (simp only: of_int_le_iff)
    then have "(2::real)\<^sup>2 \<le> real_of_int (ex\<^sup>2 + ey\<^sup>2)" by simp
    then have "2 \<le> sqrt (real_of_int (ex\<^sup>2 + ey\<^sup>2))" by (rule real_le_rsqrt)
    with d e show "2 \<le> distance_key p" by (simp add: distance_key_def)
  qed
  have s: "sqrt (real_of_int ((- 2)\<^sup>2 + 0\<^sup>2)) = 2"
  proof -
    have "sqrt (real_of_int ((- 2)\<^sup>2 + 0\<^sup>2)) = sqrt (2\<^sup>2)" by simp
    then show ?thesis by simp
  qed
  have b: "- 16 \<le> (- 2::int)" "(- 2::int) \<le> 16" "- 16 \<le> (0::int)" "(0::int) \<le> 16"
    "(- 2::int)\<^sup>2 + 0\<^sup>2 \<le> 16\<^sup>2" by simp_all
  have land: "lands_on_background example_mask 1 1 (- 2, 0, sqrt (real_of_int ((- 2)\<^sup>2 + 0\<^sup>2)))"
    by (simp add: example_mask_lands)
  from distance_to_background_eqI [OF r dl b land] least s show ?thesis by simp
qed

lemma example_mask_field:
  assumes dl: "get_distance_list 16 = Inr dl"
  shows "distance_field example_mask dl = [[1, 1, 1], [1, 2, 1], [1, 1, 1]]"
proof -
  have u: "[0..<3] = [0, 1, 2::nat]" by (simp add: upt_conv_Cons)
  note b = example_mask_border_distance [OF dl]
  have v: "distance_to_background example_mask dl 0 0 = 1"
    "distance_to_background example_mask dl 0 (Suc 0) = 1"
    "distance_to_background example_mask dl 0 2 = 1"
    "distance_to_background example_mask dl (Suc 0) 0 = 1"
    "distance_to_background example_mask dl (Suc 0) 2 = 1"
    "distance_to_background example_mask dl 2 0 = 1"
    "distance_to_background example_mask dl 2 (Suc 0) = 1"
    "distance_to_background example_mask dl 2 2 = 1"
    by (simp_all add: b)
  have c: "distance_to_background example_mask dl (Suc 0) (Suc 0) = 2"
    using example_mask_centre_distance [OF dl] by simp
  have n: "example_mask ! a ! b \<noteq> 0" if "a < 3" "b < 3" for a b
    using example_mask_nth [OF that] by simp
  show ?thesis
    unfolding distance_field_def example_mask_shape u
    by (simp add: v c n)
qed

lemma example_mask_no_bad:
  assumes dl: "get_distance_list 16 = Inr dl"
  shows "\<not> (\<exists>i < shape0 example_mask. \<exists>j < shape1 example_mask. bad_pixel example_mask dl i j)"
proof -
  have "distance_to_background example_mask dl a b \<noteq> 0" if "a < 3" "b < 3" for a b
  proof (cases "a \<noteq> 1 \<or> b \<noteq> 1")
    case True
    from example_mask_border_distance [OF dl that True] show ?thesis by simp
  next
    case False
    with example_mask_centre_distance [OF dl] show ?thesis by simp
  qed
  then show ?thesis by (auto simp: bad_pixel_def example_mask_shape)
qed

lemma example_field_of_distances:
  "find_local_maxima [[1, 1, 1], [1, 2, 1], [1, 1, 1 :: real]] = Inr [(1, 1)]"
  by (simp add: find_local_maxima_def shape0_def shape1_def upt_conv_Cons
      window_def slice_def np_max_def)

lemma example_mask_erode: "ultimate_erode example_mask orig = Inr [(1, 1)]"
proof -
  have r: "(0::int) \<le> 16" by simp
  obtain dl where dl: "get_distance_list 16 = Inr dl"
    using get_distance_list_Inr [OF r] by simp
  from example_mask_no_bad [OF dl]
  have f: "(\<exists>i < shape0 example_mask. \<exists>j < shape1 example_mask. bad_pixel example_mask dl i j)
      = False" by blast
  show ?thesis
    unfolding ultimate_erode_unfold [OF dl] f example_mask_field [OF dl]
    by (simp add: example_field_of_distances)
qed

lemma example_mask_radius_1: "ultimate_erode_radius example_mask 1 = Inr []"
proof -
  have "distance_to_background example_mask
          [(0, 0, 0), (- 1, 0, 1), (0, - 1, 1), (0, 1, 1), (1, 0, 1)] 1 1 = 0"
    by (simp add: distance_to_background_def example_mask_lands)
  then have "bad_pixel example_mask
          [(0, 0, 0), (- 1, 0, 1), (0, - 1, 1), (0, 1, 1), (1, 0, 1)] 1 1"
    by (simp add: bad_pixel_def example_mask_nth)
  moreover have "(1::nat) < shape0 example_mask" "(1::nat) < shape1 example_mask"
    by (simp_all add: example_mask_shape)
  ultimately have "\<exists>i < shape0 example_mask. \<exists>j < shape1 example_mask.
      bad_pixel example_mask [(0, 0, 0), (- 1, 0, 1), (0, - 1, 1), (0, 1, 1), (1, 0, 1)] i j"
    by blast
  then show ?thesis
    unfolding ultimate_erode_radius_unfold [OF get_distance_list_1] by simp
qed


text \<open>
  C1: for every mask, if during the distance computation of \<open>ultimate_erode\<close> a
  foreground (non-zero) pixel receives the distance value 0, which by
  \<open>no_background_iff\<close> is when no offset of the distance list leaves the image or lands
  on a zero of the mask, then \<open>ultimate_erode\<close> returns the empty list for the whole
  image; it raises no error and returns no partial result.
\<close>

theorem ultimate_erode_empty_on_zero_distance:
  assumes "get_distance_list 16 = Inr distance_list"
    and "i < shape0 img" and "j < shape1 img" and "img ! i ! j \<noteq> 0"
    and "received_distance img distance_list i j = 0"
  shows "ultimate_erode img orig = Inr []"
proof -
  from assms(5) have "distance_to_background img distance_list i j = 0"
    by (simp add: received_distance_eq [OF assms(2,3)])
  with assms(4) have "bad_pixel img distance_list i j" by (simp add: bad_pixel_def)
  with assms(2,3) have "\<exists>i < shape0 img. \<exists>j < shape1 img. bad_pixel img distance_list i j"
    by blast
  then show ?thesis
    unfolding ultimate_erode_unfold [OF assms(1)] by simp
qed

theorem ultimate_erode_empty_on_zero_distance_witness:
  "(\<exists>dl. get_distance_list 16 = Inr dl \<and> received_distance full_mask dl 16 16 = 0) \<and>
   16 < shape0 full_mask \<and> 16 < shape1 full_mask \<and> full_mask ! 16 ! 16 \<noteq> 0 \<and>
   ultimate_erode full_mask () = Inr []"
proof -
  have r: "(0::int) \<le> 16" by simp
  obtain dl where dl: "get_distance_list 16 = Inr dl"
    using get_distance_list_Inr [OF r] by simp
  have s: "16 < shape0 full_mask" "16 < shape1 full_mask" by (simp_all add: full_mask_shape)
  have f: "full_mask ! 16 ! 16 \<noteq> 0" by (simp add: full_mask_nth)
  have "distance_to_background full_mask dl 16 16 = 0"
    unfolding no_background_iff [OF r dl s f] using full_mask_no_background [OF dl] by blast
  then have z: "received_distance full_mask dl 16 16 = 0"
    by (simp add: received_distance_eq [OF s])
  from ultimate_erode_empty_on_zero_distance [OF dl s f z]
  have "ultimate_erode full_mask () = Inr []" .
  with dl z s f show ?thesis by blast
qed

text \<open>
  C10: for every mask and any two values of the second argument, \<open>ultimate_erode\<close>
  returns the same result; the second argument has no influence on the output.
\<close>

theorem ultimate_erode_ignores_second_argument:
  "ultimate_erode img orig1 = ultimate_erode img orig2"
  by (simp add: ultimate_erode_def)

text \<open>
  C9 (the search radius is a caller-settable parameter of \<open>ultimate_erode\<close>, with
  default 16) fails: the function has no radius parameter, and its second argument does
  not set the radius.  Amended: \<open>ultimate_erode\<close> always searches with the fixed radius
  16; for every mask and every second argument it returns what the detector with a
  radius parameter returns at radius 16.
\<close>

theorem ultimate_erode_radius_fixed_at_16:
  "ultimate_erode img orig = ultimate_erode_radius img 16"
  by (rule ultimate_erode_refines)

theorem ultimate_erode_radius_fixed_at_16_witness:
  "ultimate_erode example_mask (1::int) = Inr [(1, 1)] \<and>
   ultimate_erode_radius example_mask 16 = Inr [(1, 1)]"
  using ultimate_erode_radius_fixed_at_16 [of example_mask "1::int"]
  by (simp add: example_mask_erode)

theorem second_argument_is_not_the_radius:
  "ultimate_erode example_mask (1::int) \<noteq> ultimate_erode_radius example_mask 1"
  by (simp add: example_mask_erode example_mask_radius_1)

end
